theory Spec2Isabelle
  imports Main "HOL-Library.Sublist" "HOL-Library.List_Lexorder"
begin

section \<open>JavaScript values\<close>

text \<open>
  The translation table is whatever \<^verbatim>\<open>response.json()\<close> delivers: a JSON value. Strings are
  kept as byte strings (UTF-8); the program only compares them, tests them for emptiness
  and splits them at the ASCII characters \<^verbatim>\<open>.\<close> and \<^verbatim>\<open>:\<close>, none of which depends on the
  encoding. \<open>JObj kvs\<close> is the parsed object whose property \<open>k\<close> has the value
  \<open>map_of kvs k\<close>. Of a number the program tests at most whether it is zero (the left
  operand of \<^verbatim>\<open>&&\<close>), so numbers are kept as integers.
\<close>

datatype json =
    JNull
  | JBool bool
  | JNum int
  | JStr string
  | JArr "json list"
  | JObj "(string \<times> json) list"

text \<open>
  While \<^verbatim>\<open>t\<close> descends, its loop variable can leave the JSON data: the \<^verbatim>\<open>in\<close> operator and
  property access follow the prototype chain, so a segment such as \<^verbatim>\<open>toString\<close> or
  \<^verbatim>\<open>__proto__\<close> is found in every object. The values met that way are the built-in
  prototype objects and their methods.
\<close>

datatype jsval =
    Undefined
  | Data json
  | Builtin_function
  | Object_prototype
  | Array_prototype

datatype jstype = T_undefined | T_object | T_boolean | T_number | T_string | T_function

datatype error =
    TypeError
  | SyntaxError
  | HttpError nat
  | InvalidCharacterError

fun typeof :: "jsval \<Rightarrow> jstype" where
  "typeof Undefined = T_undefined"
| "typeof (Data JNull) = T_object"
| "typeof (Data (JBool b)) = T_boolean"
| "typeof (Data (JNum n)) = T_number"
| "typeof (Data (JStr s)) = T_string"
| "typeof (Data (JArr xs)) = T_object"
| "typeof (Data (JObj kvs)) = T_object"
| "typeof Builtin_function = T_function"
| "typeof Object_prototype = T_object"
| "typeof Array_prototype = T_object"

fun truthy :: "jsval \<Rightarrow> bool" where
  "truthy Undefined = False"
| "truthy (Data JNull) = False"
| "truthy (Data (JBool b)) = b"
| "truthy (Data (JNum n)) = (n \<noteq> 0)"
| "truthy (Data (JStr s)) = (s \<noteq> [])"
| "truthy v = True"

subsection \<open>Properties of objects\<close>

definition digit :: "nat \<Rightarrow> char" where
  "digit d = ''0123456789'' ! d"

fun decimal :: "nat \<Rightarrow> string" where
  "decimal n = (if n < 10 then [digit n] else decimal (n div 10) @ [digit (n mod 10)])"

declare decimal.simps [simp del]

text \<open>The elements of an array are its properties named by the decimal index.\<close>

fun indexed :: "nat \<Rightarrow> json list \<Rightarrow> (string \<times> json) list" where
  "indexed i [] = []"
| "indexed i (x # xs) = (decimal i, x) # indexed (Suc i) xs"

text \<open>
  The string-named properties of \<^verbatim>\<open>Object.prototype\<close> and \<^verbatim>\<open>Array.prototype\<close> (ECMAScript
  2023). All of them are methods, but for \<^verbatim>\<open>__proto__\<close> (an accessor giving the receiver's
  prototype) and the \<^verbatim>\<open>length\<close> of \<^verbatim>\<open>Array.prototype\<close> (the number 0).
\<close>

definition object_prototype_methods :: "string list" where
  "object_prototype_methods =
     [''constructor'', ''__defineGetter__'', ''__defineSetter__'', ''hasOwnProperty'',
      ''__lookupGetter__'', ''__lookupSetter__'', ''isPrototypeOf'',
      ''propertyIsEnumerable'', ''toString'', ''valueOf'', ''toLocaleString'']"

definition array_prototype_methods :: "string list" where
  "array_prototype_methods =
     [''constructor'', ''at'', ''concat'', ''copyWithin'', ''fill'', ''find'', ''findIndex'',
      ''findLast'', ''findLastIndex'', ''lastIndexOf'', ''pop'', ''push'', ''reverse'',
      ''shift'', ''unshift'', ''slice'', ''sort'', ''splice'', ''includes'', ''indexOf'',
      ''join'', ''keys'', ''entries'', ''values'', ''forEach'', ''filter'', ''flat'',
      ''flatMap'', ''map'', ''every'', ''some'', ''reduce'', ''reduceRight'',
      ''toLocaleString'', ''toString'', ''toReversed'', ''toSorted'', ''toSpliced'', ''with'']"

fun prototype_of :: "jsval \<Rightarrow> jsval option" where
  "prototype_of (Data (JObj kvs)) = Some Object_prototype"
| "prototype_of (Data (JArr xs)) = Some Array_prototype"
| "prototype_of Array_prototype = Some Object_prototype"
| "prototype_of v = None"

text \<open>
  The data properties an object holds itself. \<^verbatim>\<open>JSON.parse\<close> creates every key of an object
  literal, \<^verbatim>\<open>__proto__\<close> included, as an own data property. The properties of a built-in
  method are not modelled: no evaluation in this program reaches them.
\<close>

fun own_property :: "jsval \<Rightarrow> string \<Rightarrow> jsval option" where
  "own_property (Data (JObj kvs)) k = map_option Data (map_of kvs k)"
| "own_property (Data (JArr xs)) k =
     (if k = ''length'' then Some (Data (JNum (int (length xs))))
      else map_option Data (map_of (indexed 0 xs) k))"
| "own_property Object_prototype k =
     (if k \<in> set object_prototype_methods then Some Builtin_function else None)"
| "own_property Array_prototype k =
     (if k = ''length'' then Some (Data (JNum 0))
      else if k \<in> set array_prototype_methods then Some Builtin_function else None)"
| "own_property v k = None"

text \<open>
  Lookup of \<open>k\<close> for the receiver \<open>v\<close>, starting at the object \<open>holder\<close> of its prototype
  chain; \<open>fuel\<close> bounds the length of the chain (at most three objects).
\<close>

fun lookup_from :: "nat \<Rightarrow> jsval \<Rightarrow> jsval \<Rightarrow> string \<Rightarrow> jsval option" where
  "lookup_from 0 holder v k = None"
| "lookup_from (Suc fuel) holder v k =
     (case own_property holder k of
        Some x \<Rightarrow> Some x
      | None \<Rightarrow>
          if holder = Object_prototype \<and> k = ''__proto__''
          then Some (case prototype_of v of None \<Rightarrow> Data JNull | Some p \<Rightarrow> p)
          else (case prototype_of holder of
                  None \<Rightarrow> None
                | Some p \<Rightarrow> lookup_from fuel p v k))"

definition lookup :: "jsval \<Rightarrow> string \<Rightarrow> jsval option" where
  "lookup v k = lookup_from 3 v v k"

definition is_object :: "jsval \<Rightarrow> bool" where
  "is_object v = (v \<noteq> Data JNull \<and> (typeof v = T_object \<or> typeof v = T_function))"

text \<open>\<^verbatim>\<open>k in v\<close>: a TypeError unless \<open>v\<close> is an object.\<close>

definition js_in :: "string \<Rightarrow> jsval \<Rightarrow> error + bool" where
  "js_in k v = (if is_object v then Inr (lookup v k \<noteq> None) else Inl TypeError)"

text \<open>
  \<^verbatim>\<open>v[k]\<close>: a TypeError on \<^verbatim>\<open>null\<close> and \<^verbatim>\<open>undefined\<close>, and \<^verbatim>\<open>undefined\<close> for a property that is
  not found. Property access on the other primitive values (which finds the methods of
  their wrapper objects) is not modelled: the program reads a property only of a value
  it has tested with \<^verbatim>\<open>in\<close>.
\<close>

definition js_get :: "jsval \<Rightarrow> string \<Rightarrow> error + jsval" where
  "js_get v k =
     (if v = Data JNull \<or> v = Undefined then Inl TypeError
      else Inr (case lookup v k of None \<Rightarrow> Undefined | Some x \<Rightarrow> x))"

subsection \<open>Strings\<close>

text \<open>\<^verbatim>\<open>s.split(sep)\<close> for a separator of one character: never an empty list.\<close>

fun split :: "char \<Rightarrow> string \<Rightarrow> string list" where
  "split sep [] = [[]]"
| "split sep (c # cs) =
     (if c = sep then [] # split sep cs
      else (case split sep cs of
              [] \<Rightarrow> [[c]]
            | w # ws \<Rightarrow> (c # w) # ws))"

section \<open>Lookup of a translation\<close>

text \<open>\<^verbatim>\<open>fallback || key\<close>: the empty string is falsy.\<close>

definition or_key :: "string \<Rightarrow> string \<Rightarrow> string" where
  "or_key fallback key = (if fallback \<noteq> [] then fallback else key)"

text \<open>
  The loop \<^verbatim>\<open>for (const k of keys)\<close> with the variable \<^verbatim>\<open>value\<close>, and the return after it.
  The conjunction \<^verbatim>\<open>value && typeof value === 'object' && k in value\<close> is evaluated from
  the left and stops at the first false conjunct.
\<close>

fun t_loop :: "string list \<Rightarrow> jsval \<Rightarrow> string \<Rightarrow> string \<Rightarrow> error + string" where
  "t_loop [] v key fallback =
     (case v of
        Data (JStr s) \<Rightarrow> Inr s
      | _ \<Rightarrow> Inr (or_key fallback key))"
| "t_loop (k # ks) v key fallback =
     (if truthy v \<and> typeof v = T_object then
        (case js_in k v of
           Inl e \<Rightarrow> Inl e
         | Inr False \<Rightarrow> Inr (or_key fallback key)
         | Inr True \<Rightarrow>
             (case js_get v k of
                Inl e \<Rightarrow> Inl e
              | Inr v' \<Rightarrow> t_loop ks v' key fallback))
      else Inr (or_key fallback key))"

definition t :: "json \<Rightarrow> string \<Rightarrow> string \<Rightarrow> error + string" where
  "t tr key fallback = t_loop (split CHR ''.'' key) (Data tr) key fallback"

subsection \<open>The reference descent\<close>

text \<open>
  The lookup as the specification words it: the key is split at the dots and the table is
  descended one segment per level; a level that is not a mapping (a JSON object), a
  segment that is missing and a final value that is not a string give the fallback when
  it is not empty, else the key.
\<close>

fun mapping_entries :: "json \<Rightarrow> (string \<times> json) list option" where
  "mapping_entries (JObj kvs) = Some kvs"
| "mapping_entries j = None"

fun descend_mappings :: "string list \<Rightarrow> json \<Rightarrow> json option" where
  "descend_mappings [] j = Some j"
| "descend_mappings (k # ks) j =
     (case mapping_entries j of
        None \<Rightarrow> None
      | Some kvs \<Rightarrow>
          (case map_of kvs k of
             None \<Rightarrow> None
           | Some j' \<Rightarrow> descend_mappings ks j'))"

definition t_reference :: "json \<Rightarrow> string \<Rightarrow> string \<Rightarrow> string" where
  "t_reference tr key fallback =
     (case descend_mappings (split CHR ''.'' key) tr of
        Some (JStr s) \<Rightarrow> s
      | _ \<Rightarrow> if fallback \<noteq> [] then fallback else key)"

text \<open>
  The same descent with one more kind of level: an array, descended by the decimal index
  of an element. This is what \<^verbatim>\<open>t\<close> finds, as its test \<^verbatim>\<open>typeof value === 'object'\<close> admits
  arrays.
\<close>

fun members :: "json \<Rightarrow> (string \<times> json) list option" where
  "members (JObj kvs) = Some kvs"
| "members (JArr xs) = Some (indexed 0 xs)"
| "members j = None"

fun descend :: "string list \<Rightarrow> json \<Rightarrow> json option" where
  "descend [] j = Some j"
| "descend (k # ks) j =
     (case members j of
        None \<Rightarrow> None
      | Some kvs \<Rightarrow>
          (case map_of kvs k of
             None \<Rightarrow> None
           | Some j' \<Rightarrow> descend ks j'))"

definition t_descent :: "json \<Rightarrow> string \<Rightarrow> string \<Rightarrow> string" where
  "t_descent tr key fallback =
     (case descend (split CHR ''.'' key) tr of
        Some (JStr s) \<Rightarrow> s
      | _ \<Rightarrow> if fallback \<noteq> [] then fallback else key)"

text \<open>A table without arrays, at any depth.\<close>

fun array_free :: "json \<Rightarrow> bool" where
  "array_free (JArr xs) = False"
| "array_free (JObj kvs) = list_all (\<lambda>kv. array_free (snd kv)) kvs"
| "array_free j = True"

section \<open>The host: network, storage and document\<close>

text \<open>
  The repository holds two copies of the class \<^verbatim>\<open>I18n\<close>: \<^verbatim>\<open>src/public/js/i18n.js\<close> and
  \<^verbatim>\<open>src/unnamed/part_000\<close>. They differ in \<^verbatim>\<open>loadTranslations\<close> (only the first tests
  \<^verbatim>\<open>response.ok\<close>), in \<^verbatim>\<open>updateLanguageSwitcher\<close> (only the first tests the label for
  \<^verbatim>\<open>null\<close>), in the flag \<^verbatim>\<open>isInitialized\<close> (only the first has it) and in their logging.
  Of the logging one call is modelled, the only one that can throw: \<^verbatim>\<open>applyLanguage\<close> of
  the first copy evaluates \<^verbatim>\<open>Object.keys(this.translations)\<close>. The functions below take
  the copy as a parameter where the two differ.
\<close>

datatype copy = I18n_js | Part_000

subsection \<open>Network\<close>

record response =
  ok :: bool
  status :: nat
  body :: "json option"

text \<open>
  The field \<open>body\<close> is what \<^verbatim>\<open>response.json()\<close> resolves to, \<open>None\<close> when the body is not
  JSON (the promise rejects with a SyntaxError). \<^verbatim>\<open>fetch\<close> rejects with a TypeError when
  the network fails; a response with an error status resolves.
\<close>

datatype fetch_result = Rejected | Resolved response

record host =
  fetch :: "string \<Rightarrow> fetch_result"
  valid_attribute_name :: "string \<Rightarrow> bool"

text \<open>
  The host also decides which strings \<^verbatim>\<open>setAttribute\<close> accepts as the name of an
  attribute (the DOM standard's rule has changed over time; the empty string is never
  one).
\<close>

definition response_json :: "response \<Rightarrow> error + json" where
  "response_json r = (case body r of None \<Rightarrow> Inl SyntaxError | Some j \<Rightarrow> Inr j)"

text \<open>
  \<^verbatim>\<open>const response = await fetch(url); this.translations = await response.json()\<close>, up to
  the assignment: the retrieval without a look at the status.
\<close>

definition fetch_unchecked :: "host \<Rightarrow> string \<Rightarrow> error + json" where
  "fetch_unchecked h url =
     (case fetch h url of
        Rejected \<Rightarrow> Inl TypeError
      | Resolved r \<Rightarrow> response_json r)"

text \<open>The same with \<^verbatim>\<open>if (!response.ok) throw new Error(`HTTP ${response.status}`)\<close> between.\<close>

definition fetch_checked :: "host \<Rightarrow> string \<Rightarrow> error + json" where
  "fetch_checked h url =
     (case fetch h url of
        Rejected \<Rightarrow> Inl TypeError
      | Resolved r \<Rightarrow> if \<not> ok r then Inl (HttpError (status r)) else response_json r)"

subsection \<open>Nodes\<close>

text \<open>
  The document is a tree of elements and text nodes; other kinds of node play no part.
  An element has its tag name and its content attributes. Elements are HTML elements of
  an HTML document in no-quirks mode: tag names are in upper case, attribute names are
  matched in lower case, class names as they are written, the property \<^verbatim>\<open>title\<close> of an
  element is its attribute \<^verbatim>\<open>title\<close>, and the property \<^verbatim>\<open>placeholder\<close> of an \<^verbatim>\<open>INPUT\<close> or
  \<^verbatim>\<open>TEXTAREA\<close> is its attribute \<^verbatim>\<open>placeholder\<close>; on any other element \<^verbatim>\<open>placeholder\<close> is a
  plain property of the script object, kept in \<open>own_placeholder\<close>.
\<close>

record element =
  tagName :: string
  attributes :: "string \<rightharpoonup> string"
  own_placeholder :: "string option"

datatype node = Text string | Element element "node list"

definition lower_char :: "char \<Rightarrow> char" where
  "lower_char c =
     (case map_of (zip ''ABCDEFGHIJKLMNOPQRSTUVWXYZ'' ''abcdefghijklmnopqrstuvwxyz'') c of
        None \<Rightarrow> c
      | Some l \<Rightarrow> l)"

definition getAttribute :: "element \<Rightarrow> string \<Rightarrow> string option" where
  "getAttribute el name = attributes el (map lower_char name)"

definition setAttribute :: "host \<Rightarrow> element \<Rightarrow> string \<Rightarrow> string \<Rightarrow> error + element" where
  "setAttribute h el name v =
     (if valid_attribute_name h name
      then Inr (el\<lparr>attributes := (attributes el)(map lower_char name \<mapsto> v)\<rparr>)
      else Inl InvalidCharacterError)"

definition input_like :: "element \<Rightarrow> bool" where
  "input_like el = (tagName el = ''INPUT'' \<or> tagName el = ''TEXTAREA'')"

text \<open>\<^verbatim>\<open>element.title = v\<close> and \<^verbatim>\<open>element.placeholder = v\<close>.\<close>

definition set_title :: "element \<Rightarrow> string \<Rightarrow> element" where
  "set_title el v = el\<lparr>attributes := (attributes el)(''title'' \<mapsto> v)\<rparr>"

definition set_placeholder :: "element \<Rightarrow> string \<Rightarrow> element" where
  "set_placeholder el v =
     (if input_like el then el\<lparr>attributes := (attributes el)(''placeholder'' \<mapsto> v)\<rparr>
      else el\<lparr>own_placeholder := Some v\<rparr>)"

text \<open>Reading \<^verbatim>\<open>element.placeholder\<close>; \<open>None\<close> is \<^verbatim>\<open>undefined\<close>.\<close>

definition placeholder :: "element \<Rightarrow> string option" where
  "placeholder el =
     (if input_like el
      then Some (case attributes el ''placeholder'' of None \<Rightarrow> [] | Some v \<Rightarrow> v)
      else own_placeholder el)"

text \<open>
  Reading \<^verbatim>\<open>textContent\<close>: the text of all descendants, in tree order. Assigning it replaces
  all children of the element by one text node, or by none when the string is empty.
\<close>

fun textContent :: "node \<Rightarrow> string" where
  "textContent (Text s) = s"
| "textContent (Element e ch) = concat (map textContent ch)"

definition text_nodes :: "string \<Rightarrow> node list" where
  "text_nodes v = (if v = [] then [] else [Text v])"

text \<open>ASCII whitespace, and the splitting of a string at it.\<close>

definition ascii_whitespace :: "char \<Rightarrow> bool" where
  "ascii_whitespace c = (c \<in> set [CHR 0x09, CHR 0x0A, CHR 0x0C, CHR 0x0D, CHR '' ''])"

definition tokens :: "string \<Rightarrow> string list" where
  "tokens s =
     filter (\<lambda>w. w \<noteq> [])
       (split CHR '' '' (map (\<lambda>c. if ascii_whitespace c then CHR '' '' else c) s))"

fun join :: "string list \<Rightarrow> string" where
  "join [] = []"
| "join [w] = w"
| "join (w # ws) = w @ '' '' @ join ws"

definition strip_and_collapse :: "string \<Rightarrow> string" where
  "strip_and_collapse s = join (tokens s)"

definition has_attribute :: "string \<Rightarrow> element \<Rightarrow> bool" where
  "has_attribute name el = (getAttribute el name \<noteq> None)"

definition has_class :: "string \<Rightarrow> element \<Rightarrow> bool" where
  "has_class cls el =
     (case getAttribute el ''class'' of
        None \<Rightarrow> False
      | Some v \<Rightarrow> cls \<in> set (tokens v))"

subsection \<open>The tree\<close>

text \<open>
  A node of the document is addressed by its path from the root: the indices of the
  children to follow. A script holds a node by reference; here it holds the path. The
  program removes nodes only by assigning \<^verbatim>\<open>textContent\<close> (or the title of the document),
  which leaves at most a text node under the element, and it adds an element only as the
  last child of \<^verbatim>\<open>head\<close>. So the path of a node that is still in the document always leads
  to that node, and the path of a removed element leads to no element.
\<close>

type_synonym path = "nat list"

fun node_at :: "node \<Rightarrow> path \<Rightarrow> node option" where
  "node_at n [] = Some n"
| "node_at (Text s) (i # p) = None"
| "node_at (Element e ch) (i # p) = (if i < length ch then node_at (ch ! i) p else None)"

fun replace_at :: "path \<Rightarrow> node \<Rightarrow> node \<Rightarrow> node" where
  "replace_at [] new n = new"
| "replace_at (i # p) new (Text s) = Text s"
| "replace_at (i # p) new (Element e ch) =
     (if i < length ch then Element e (ch[i := replace_at p new (ch ! i)]) else Element e ch)"

text \<open>The element at a path gets new children.\<close>

definition set_children :: "path \<Rightarrow> node list \<Rightarrow> node \<Rightarrow> node" where
  "set_children p chs d =
     (case node_at d p of
        Some (Element e ch) \<Rightarrow> replace_at p (Element e chs) d
      | _ \<Rightarrow> d)"

definition append_child :: "path \<Rightarrow> node \<Rightarrow> node \<Rightarrow> node" where
  "append_child p n d =
     (case node_at d p of
        Some (Element e ch) \<Rightarrow> replace_at p (Element e (ch @ [n])) d
      | _ \<Rightarrow> d)"

text \<open>
  \<^verbatim>\<open>querySelectorAll\<close>: the elements of the tree under a node (the node included) that a
  selector matches, in tree order, as paths from that node. \<^verbatim>\<open>querySelector\<close> gives the
  first of them.
\<close>

fun querySelectorAll :: "(element \<Rightarrow> bool) \<Rightarrow> node \<Rightarrow> path list"
  and select_children :: "(element \<Rightarrow> bool) \<Rightarrow> nat \<Rightarrow> node list \<Rightarrow> path list" where
  "querySelectorAll P (Text s) = []"
| "querySelectorAll P (Element e ch) = (if P e then [[]] else []) @ select_children P 0 ch"
| "select_children P i [] = []"
| "select_children P i (n # ns) =
     map ((#) i) (querySelectorAll P n) @ select_children P (Suc i) ns"

definition first_of :: "'a list \<Rightarrow> 'a option" where
  "first_of xs = (case xs of [] \<Rightarrow> None | x # _ \<Rightarrow> Some x)"

definition querySelector :: "(element \<Rightarrow> bool) \<Rightarrow> node \<Rightarrow> path option" where
  "querySelector P d = first_of (querySelectorAll P d)"

definition getElementById :: "string \<Rightarrow> node \<Rightarrow> path option" where
  "getElementById ident d = querySelector (\<lambda>el. getAttribute el ''id'' = Some ident) d"

text \<open>
  \<^verbatim>\<open>element.querySelector\<close>, for the element at the path \<open>p\<close>: the first match among its
  descendants, the element itself left out.
\<close>

definition querySelector_within :: "path \<Rightarrow> (element \<Rightarrow> bool) \<Rightarrow> node \<Rightarrow> path option" where
  "querySelector_within p P d =
     (case node_at d p of
        None \<Rightarrow> None
      | Some n \<Rightarrow> map_option ((@) p) (first_of (filter (\<lambda>r. r \<noteq> []) (querySelectorAll P n))))"

subsection \<open>The title of the document\<close>

text \<open>
  The title element is the first \<^verbatim>\<open>title\<close> element in tree order; the head element is the
  first \<^verbatim>\<open>head\<close> child of the root when the root is the \<^verbatim>\<open>html\<close> element. Reading
  \<^verbatim>\<open>document.title\<close> gives the text of the text children of the title element, stripped
  and collapsed. Assigning it replaces the children of the title element; without a
  title element one is appended to the head element, and without a head element nothing
  happens.
\<close>

definition title_element :: "node \<Rightarrow> path option" where
  "title_element d = querySelector (\<lambda>el. tagName el = ''TITLE'') d"

fun first_child :: "(element \<Rightarrow> bool) \<Rightarrow> nat \<Rightarrow> node list \<Rightarrow> nat option" where
  "first_child P i [] = None"
| "first_child P i (Text s # ns) = first_child P (Suc i) ns"
| "first_child P i (Element e ch # ns) = (if P e then Some i else first_child P (Suc i) ns)"

definition head_element :: "node \<Rightarrow> path option" where
  "head_element d =
     (case d of
        Text s \<Rightarrow> None
      | Element e ch \<Rightarrow>
          if tagName e = ''HTML''
          then map_option (\<lambda>i. [i]) (first_child (\<lambda>el. tagName el = ''HEAD'') 0 ch)
          else None)"

fun child_text :: "node list \<Rightarrow> string" where
  "child_text [] = []"
| "child_text (Text s # ns) = s @ child_text ns"
| "child_text (Element e ch # ns) = child_text ns"

definition document_title :: "node \<Rightarrow> string" where
  "document_title d =
     (case title_element d of
        None \<Rightarrow> []
      | Some q \<Rightarrow>
          (case node_at d q of
             Some (Element e ch) \<Rightarrow> strip_and_collapse (child_text ch)
           | _ \<Rightarrow> []))"

definition new_title_element :: "string \<Rightarrow> node" where
  "new_title_element v =
     Element \<lparr>tagName = ''TITLE'', attributes = Map.empty, own_placeholder = None\<rparr>
       (text_nodes v)"

definition set_document_title :: "string \<Rightarrow> node \<Rightarrow> node" where
  "set_document_title v d =
     (case title_element d of
        Some q \<Rightarrow> set_children q (text_nodes v) d
      | None \<Rightarrow>
          (case head_element d of
             None \<Rightarrow> d
           | Some hq \<Rightarrow> append_child hq (new_title_element v) d))"

subsection \<open>The state\<close>

datatype effect = Fetch string | SetItem string string

text \<open>
  The state: the fields of the \<^verbatim>\<open>I18n\<close> object, the storage, the document (its root
  element), the elements to which a click listener of the object is attached (once for
  each listener), the pending timers (each will call \<^verbatim>\<open>updateLanguageSwitcher\<close>), and the
  requests and storage writes made so far.
\<close>

record state =
  currentLanguage :: string
  translations' :: json
  isInitialized :: bool
  localStorage :: "string \<rightharpoonup> string"
  document :: node
  listeners :: "path list"
  timers :: nat
  effects :: "effect list"

text \<open>
  How a call ends. An \<^verbatim>\<open>async\<close> function is run to its end in one piece; \<open>Thrown\<close> is then
  the rejection of its promise. What the call changed before it threw stays changed.
\<close>

datatype completion = Returned | Thrown error

fun sequence :: "('s \<Rightarrow> completion \<times> 's) list \<Rightarrow> 's \<Rightarrow> completion \<times> 's" where
  "sequence [] s = (Returned, s)"
| "sequence (f # fs) s =
     (case f s of
        (Returned, s') \<Rightarrow> sequence fs s'
      | (Thrown e, s') \<Rightarrow> (Thrown e, s'))"

section \<open>The class \<^verbatim>\<open>I18n\<close>\<close>

subsection \<open>\<^verbatim>\<open>loadTranslations\<close>\<close>

definition locale_url :: "string \<Rightarrow> string" where
  "locale_url lang = ''/js/locales/'' @ lang @ ''.json''"

definition requested :: "string \<Rightarrow> state \<Rightarrow> state" where
  "requested url s = s\<lparr>effects := effects s @ [Fetch url]\<rparr>"

text \<open>The retrieval in the \<^verbatim>\<open>try\<close> block, as each copy writes it.\<close>

definition retrieve :: "copy \<Rightarrow> host \<Rightarrow> string \<Rightarrow> error + json" where
  "retrieve c h url = (if c = I18n_js then fetch_checked h url else fetch_unchecked h url)"

text \<open>
  The \<^verbatim>\<open>try\<close> block: the table is assigned only once the response has been parsed.
\<close>

definition load_attempt :: "copy \<Rightarrow> host \<Rightarrow> state \<Rightarrow> completion \<times> state" where
  "load_attempt c h s =
     (let url = locale_url (currentLanguage s) in
      case retrieve c h url of
        Inl e \<Rightarrow> (Thrown e, requested url s)
      | Inr j \<Rightarrow> (Returned, (requested url s)\<lparr>translations' := j\<rparr>))"

text \<open>
  The \<^verbatim>\<open>catch\<close> block: \<^verbatim>\<open>if (this.currentLanguage === 'en')\<close> the Chinese table is fetched,
  in both copies without a test of the status and outside any \<^verbatim>\<open>try\<close>.
\<close>

definition load_fallback :: "host \<Rightarrow> state \<Rightarrow> completion \<times> state" where
  "load_fallback h s =
     (if currentLanguage s = ''en'' then
        (let s1 = s\<lparr>currentLanguage := ''zh''\<rparr>; url = ''/js/locales/zh.json'' in
         case fetch_unchecked h url of
           Inl e \<Rightarrow> (Thrown e, requested url s1)
         | Inr j \<Rightarrow> (Returned, (requested url s1)\<lparr>translations' := j\<rparr>))
      else (Returned, s))"

definition loadTranslations :: "copy \<Rightarrow> host \<Rightarrow> state \<Rightarrow> completion \<times> state" where
  "loadTranslations c h s =
     (case load_attempt c h s of
        (Returned, s1) \<Rightarrow> (Returned, s1)
      | (Thrown e, s1) \<Rightarrow> load_fallback h s1)"


subsection \<open>\<^verbatim>\<open>applyLanguage\<close>\<close>

text \<open>
  What a callback does to its element: the element with its attributes and properties
  after the call, and the string assigned to \<^verbatim>\<open>textContent\<close>, if one is.
\<close>

type_synonym change = "element \<times> string option"

definition assigned :: "string option \<Rightarrow> node list \<Rightarrow> node list" where
  "assigned w ch = (case w of None \<Rightarrow> ch | Some v \<Rightarrow> text_nodes v)"

definition element_at :: "node \<Rightarrow> path \<Rightarrow> element option" where
  "element_at d p = (case node_at d p of Some (Element e ch) \<Rightarrow> Some e | _ \<Rightarrow> None)"

text \<open>
  \<^verbatim>\<open>nodes.forEach(f)\<close> on the static list that \<^verbatim>\<open>querySelectorAll\<close> gave for the document
  \<open>d0\<close>: the callback changes the elements one after the other; the first exception ends
  the loop and leaves the remaining elements as they were. An element of the list that
  an earlier callback has removed from the document is no longer at its path; the
  callback still runs on it, as it was when the list was made, and can throw, but what
  it does to the removed element is not seen again.
\<close>

fun forEach :: "(element \<Rightarrow> error + change) \<Rightarrow> node \<Rightarrow> path list \<Rightarrow> node \<Rightarrow> completion \<times> node" where
  "forEach f d0 [] d = (Returned, d)"
| "forEach f d0 (p # ps) d =
     (case node_at d p of
        Some (Element e ch) \<Rightarrow>
          (case f e of
             Inl err \<Rightarrow> (Thrown err, d)
           | Inr (e', w) \<Rightarrow> forEach f d0 ps (replace_at p (Element e' (assigned w ch)) d))
      | _ \<Rightarrow>
          (case element_at d0 p of
             None \<Rightarrow> forEach f d0 ps d
           | Some e \<Rightarrow>
               (case f e of
                  Inl err \<Rightarrow> (Thrown err, d)
                | Inr r \<Rightarrow> forEach f d0 ps d)))"

text \<open>\<^verbatim>\<open>document.querySelectorAll('[marker]').forEach(f)\<close>.\<close>

definition each_element ::
  "string \<Rightarrow> (state \<Rightarrow> element \<Rightarrow> error + change) \<Rightarrow> state \<Rightarrow> completion \<times> state" where
  "each_element marker f s =
     (case forEach (f s) (document s)
             (querySelectorAll (has_attribute marker) (document s)) (document s) of
        (c, d) \<Rightarrow> (c, s\<lparr>document := d\<rparr>))"

text \<open>
  \<^verbatim>\<open>Object.keys(this.translations)\<close>, whose result only goes to the console, throws a
  TypeError when the table is \<^verbatim>\<open>null\<close> and returns for every other JSON value. The call
  is in \<^verbatim>\<open>i18n.js\<close> only.
\<close>

fun Object_keys :: "json \<Rightarrow> error + string list" where
  "Object_keys JNull = Inl TypeError"
| "Object_keys (JObj kvs) = Inr (map fst kvs)"
| "Object_keys (JArr xs) = Inr (map fst (indexed 0 xs))"
| "Object_keys (JStr s) = Inr (map decimal [0..<length s])"
| "Object_keys j = Inr []"

definition log_translations :: "copy \<Rightarrow> state \<Rightarrow> completion \<times> state" where
  "log_translations c s =
     (if c = I18n_js then
        (case Object_keys (translations' s) of
           Inl e \<Rightarrow> (Thrown e, s)
         | Inr ks \<Rightarrow> (Returned, s))
      else (Returned, s))"

definition update_title :: "state \<Rightarrow> completion \<times> state" where
  "update_title s =
     (case t (translations' s) ''page.title'' [] of
        Inl e \<Rightarrow> (Thrown e, s)
      | Inr v \<Rightarrow> (Returned, s\<lparr>document := set_document_title v (document s)\<rparr>))"

text \<open>
  The four callbacks. \<^verbatim>\<open>getAttribute\<close> gives \<^verbatim>\<open>null\<close> for a missing attribute, and then
  \<^verbatim>\<open>this.t(null)\<close> throws a TypeError at \<^verbatim>\<open>key.split\<close>, as does \<^verbatim>\<open>attrData.split\<close>.
\<close>

definition text_binding :: "state \<Rightarrow> element \<Rightarrow> error + change" where
  "text_binding s el =
     (case getAttribute el ''data-i18n'' of
        None \<Rightarrow> Inl TypeError
      | Some key \<Rightarrow>
          (case t (translations' s) key [] of
             Inl e \<Rightarrow> Inl e
           | Inr v \<Rightarrow>
               if tagName el = ''INPUT'' \<or> tagName el = ''TEXTAREA''
               then Inr (set_placeholder el v, None)
               else Inr (el, Some v)))"

text \<open>
  \<^verbatim>\<open>const [attr, key] = attrData.split(':')\<close>: without a colon \<^verbatim>\<open>key\<close> is \<^verbatim>\<open>undefined\<close>, and
  \<^verbatim>\<open>this.t(key)\<close> throws a TypeError at \<^verbatim>\<open>key.split\<close>, before \<^verbatim>\<open>setAttribute\<close> is called.
\<close>

definition attr_binding :: "host \<Rightarrow> state \<Rightarrow> element \<Rightarrow> error + change" where
  "attr_binding h s el =
     (case getAttribute el ''data-i18n-attr'' of
        None \<Rightarrow> Inl TypeError
      | Some attrData \<Rightarrow>
          (case split CHR '':'' attrData of
             attr # key # rest \<Rightarrow>
               (case t (translations' s) key [] of
                  Inl e \<Rightarrow> Inl e
                | Inr v \<Rightarrow>
                    (case setAttribute h el attr v of
                       Inl e \<Rightarrow> Inl e
                     | Inr el' \<Rightarrow> Inr (el', None)))
           | _ \<Rightarrow> Inl TypeError))"

definition title_binding :: "state \<Rightarrow> element \<Rightarrow> error + change" where
  "title_binding s el =
     (case getAttribute el ''data-i18n-title'' of
        None \<Rightarrow> Inl TypeError
      | Some key \<Rightarrow>
          (case t (translations' s) key [] of
             Inl e \<Rightarrow> Inl e
           | Inr v \<Rightarrow> Inr (set_title el v, None)))"

definition placeholder_binding :: "state \<Rightarrow> element \<Rightarrow> error + change" where
  "placeholder_binding s el =
     (case getAttribute el ''data-i18n-placeholder'' of
        None \<Rightarrow> Inl TypeError
      | Some key \<Rightarrow>
          (case t (translations' s) key [] of
             Inl e \<Rightarrow> Inl e
           | Inr v \<Rightarrow> Inr (set_placeholder el v, None)))"

definition applyLanguage :: "copy \<Rightarrow> host \<Rightarrow> state \<Rightarrow> completion \<times> state" where
  "applyLanguage c h =
     sequence
       [log_translations c,
        update_title,
        each_element ''data-i18n'' text_binding,
        each_element ''data-i18n-attr'' (attr_binding h),
        each_element ''data-i18n-title'' title_binding,
        each_element ''data-i18n-placeholder'' placeholder_binding]"

subsection \<open>The toggle\<close>

definition setupLanguageSwitcher :: "state \<Rightarrow> completion \<times> state" where
  "setupLanguageSwitcher s =
     (case getElementById ''language-switcher'' (document s) of
        None \<Rightarrow> (Returned, s)
      | Some switcher \<Rightarrow> (Returned, s\<lparr>listeners := listeners s @ [switcher]\<rparr>))"

text \<open>The label of the Chinese language, two characters, in UTF-8.\<close>

definition zhongwen :: string where
  "zhongwen = [CHR 0xE4, CHR 0xB8, CHR 0xAD, CHR 0xE6, CHR 0x96, CHR 0x87]"

text \<open>
  \<^verbatim>\<open>i18n.js\<close> assigns the label under \<^verbatim>\<open>if (text)\<close>; \<^verbatim>\<open>part_000\<close> assigns \<^verbatim>\<open>text.textContent\<close>
  at once, a TypeError when \<^verbatim>\<open>text\<close> is \<^verbatim>\<open>null\<close>.
\<close>

definition updateLanguageSwitcher :: "copy \<Rightarrow> state \<Rightarrow> completion \<times> state" where
  "updateLanguageSwitcher c s =
     (case getElementById ''language-switcher'' (document s) of
        None \<Rightarrow> (Returned, s)
      | Some switcher \<Rightarrow>
          (case querySelector_within switcher (has_class ''btn-text'') (document s) of
             None \<Rightarrow> (if c = I18n_js then Returned else Thrown TypeError, s)
           | Some label \<Rightarrow>
               (Returned,
                s\<lparr>document :=
                    set_children label
                      (text_nodes (if currentLanguage s = ''zh'' then ''English'' else zhongwen))
                      (document s)\<rparr>)))"

subsection \<open>\<^verbatim>\<open>switchLanguage\<close>\<close>

definition select_language :: "string \<Rightarrow> state \<Rightarrow> completion \<times> state" where
  "select_language lang s =
     (Returned,
      s\<lparr>currentLanguage := lang,
        localStorage := (localStorage s)(''language'' \<mapsto> lang),
        effects := effects s @ [SetItem ''language'' lang]\<rparr>)"

definition switchLanguage :: "copy \<Rightarrow> host \<Rightarrow> string \<Rightarrow> state \<Rightarrow> completion \<times> state" where
  "switchLanguage c h lang s =
     (if lang = currentLanguage s then (Returned, s)
      else sequence
             [select_language lang,
              loadTranslations c h,
              applyLanguage c h,
              updateLanguageSwitcher c] s)"

subsection \<open>Construction and events\<close>

definition mark_initialized :: "copy \<Rightarrow> state \<Rightarrow> completion \<times> state" where
  "mark_initialized c s = (Returned, if c = I18n_js then s\<lparr>isInitialized := True\<rparr> else s)"

definition set_timer :: "state \<Rightarrow> completion \<times> state" where
  "set_timer s = (Returned, s\<lparr>timers := Suc (timers s)\<rparr>)"

definition init :: "copy \<Rightarrow> host \<Rightarrow> state \<Rightarrow> completion \<times> state" where
  "init c h =
     sequence
       [loadTranslations c h,
        applyLanguage c h,
        setupLanguageSwitcher,
        mark_initialized c,
        set_timer]"

text \<open>
  \<^verbatim>\<open>new I18n()\<close> on a page with the storage \<open>store\<close> and the document \<open>d\<close>:
  \<^verbatim>\<open>localStorage.getItem('language') || 'zh'\<close> takes \<^verbatim>\<open>zh\<close> also for a stored empty string.
\<close>

definition new_I18n :: "copy \<Rightarrow> host \<Rightarrow> (string \<rightharpoonup> string) \<Rightarrow> node \<Rightarrow> completion \<times> state" where
  "new_I18n c h store d =
     init c h
       \<lparr>currentLanguage =
          (case store ''language'' of
             None \<Rightarrow> ''zh''
           | Some l \<Rightarrow> if l \<noteq> [] then l else ''zh''),
        translations' = JObj [],
        isInitialized = False,
        localStorage = store,
        document = d,
        listeners = [],
        timers = 0,
        effects = []\<rparr>"

text \<open>The callback of \<^verbatim>\<open>setTimeout\<close>, when a timer is pending.\<close>

definition timer_fires :: "copy \<Rightarrow> state \<Rightarrow> completion \<times> state" where
  "timer_fires c s =
     (if timers s = 0 then (Returned, s)
      else updateLanguageSwitcher c (s\<lparr>timers := timers s - 1\<rparr>))"

text \<open>The click listener that \<^verbatim>\<open>setupLanguageSwitcher\<close> attaches.\<close>

definition on_click :: "copy \<Rightarrow> host \<Rightarrow> state \<Rightarrow> completion \<times> state" where
  "on_click c h s =
     (let newLang = (if currentLanguage s = ''zh'' then ''en'' else ''zh'')
      in switchLanguage c h newLang s)"

text \<open>
  A click on the toggle, the element that \<^verbatim>\<open>getElementById('language-switcher')\<close> finds,
  runs the listener attached to it. With several listeners attached their
  \<^verbatim>\<open>switchLanguage\<close> calls would overlap at the first \<^verbatim>\<open>await\<close>; that is outside this
  sequential model, and \<open>click\<close> gives \<open>None\<close>.
\<close>

definition click :: "copy \<Rightarrow> host \<Rightarrow> state \<Rightarrow> (completion \<times> state) option" where
  "click c h s =
     (case getElementById ''language-switcher'' (document s) of
        None \<Rightarrow> Some (Returned, s)
      | Some switcher \<Rightarrow>
          if count_list (listeners s) switcher = 0 then Some (Returned, s)
          else if count_list (listeners s) switcher = 1 then Some (on_click c h s)
          else None)"

section \<open>Notions used in the statements\<close>

text \<open>
  The attribute, in lower case, that the attribute marker of an element names; \<open>None\<close>
  when the element has no such marker or the marker has no colon.
\<close>

definition attr_target :: "element \<Rightarrow> string option" where
  "attr_target el =
     (case getAttribute el ''data-i18n-attr'' of
        None \<Rightarrow> None
      | Some attrData \<Rightarrow>
          (case split CHR '':'' attrData of
             attr # key # rest \<Rightarrow> Some (map lower_char attr)
           | _ \<Rightarrow> None))"

text \<open>
  An element whose attribute marker, if it has one, has a colon and names an attribute
  that the host accepts.
\<close>

definition well_marked :: "host \<Rightarrow> element \<Rightarrow> bool" where
  "well_marked h el =
     (case getAttribute el ''data-i18n-attr'' of
        None \<Rightarrow> True
      | Some attrData \<Rightarrow>
          (case split CHR '':'' attrData of
             attr # key # rest \<Rightarrow> valid_attribute_name h attr
           | _ \<Rightarrow> False))"

text \<open>A property of every element of the tree under a node, the node included.\<close>

fun every_element :: "(element \<Rightarrow> bool) \<Rightarrow> node \<Rightarrow> bool" where
  "every_element Q (Text s) = True"
| "every_element Q (Element e ch) = (Q e \<and> list_all (every_element Q) ch)"

text \<open>
  An element whose content the first pass of \<^verbatim>\<open>applyLanguage\<close> replaces by a text: it
  bears the plain-text marker and is not input-like.
\<close>

definition replaced_by_text :: "element \<Rightarrow> bool" where
  "replaced_by_text el = (has_attribute ''data-i18n'' el \<and> \<not> input_like el)"

text \<open>
  The node at the path \<open>p\<close> is kept when no element on the way to it, itself left out,
  has the property \<open>W\<close>: with \<open>W\<close> the property above, when no callback of the first
  pass removes it.
\<close>

fun kept :: "(element \<Rightarrow> bool) \<Rightarrow> node \<Rightarrow> path \<Rightarrow> bool" where
  "kept W n [] = True"
| "kept W (Text s) (i # p) = True"
| "kept W (Element e ch) (i # p) = (\<not> W e \<and> (if i < length ch then kept W (ch ! i) p else True))"

text \<open>
  Where the title element is once \<^verbatim>\<open>document.title\<close> has been assigned: the title element
  that the document has, or else the place after the last child of its head element.
\<close>

definition title_place :: "node \<Rightarrow> path option" where
  "title_place d =
     (case title_element d of
        Some q \<Rightarrow> Some q
      | None \<Rightarrow>
          (case head_element d of
             None \<Rightarrow> None
           | Some hq \<Rightarrow>
               (case node_at d hq of
                  Some (Element e ch) \<Rightarrow> Some (hq @ [length ch])
                | _ \<Rightarrow> None)))"

text \<open>What a call leaves alone, outside the document.\<close>

definition rest_of ::
  "state \<Rightarrow> string \<times> json \<times> bool \<times> (string \<rightharpoonup> string) \<times> path list \<times> nat \<times> effect list"
where
  "rest_of s =
     (currentLanguage s, translations' s, isInitialized s, localStorage s,
      listeners s, timers s, effects s)"

text \<open>
  The text of the label of the toggle, \<open>None\<close> without a toggle or without a label: what
  \<^verbatim>\<open>document.getElementById('language-switcher').querySelector('.btn-text').textContent\<close>
  reads.
\<close>

definition label_text :: "state \<Rightarrow> string option" where
  "label_text s =
     (case getElementById ''language-switcher'' (document s) of
        None \<Rightarrow> None
      | Some switcher \<Rightarrow>
          (case querySelector_within switcher (has_class ''btn-text'') (document s) of
             None \<Rightarrow> None
           | Some label \<Rightarrow> map_option textContent (node_at (document s) label)))"

text \<open>
  What is read of the node at a path: its text, and of an element there an attribute
  and the property \<^verbatim>\<open>placeholder\<close>.
\<close>

definition text_at :: "node \<Rightarrow> path \<Rightarrow> string option" where
  "text_at d p = map_option textContent (node_at d p)"

definition attribute_at :: "node \<Rightarrow> path \<Rightarrow> string \<Rightarrow> string option" where
  "attribute_at d p name =
     (case element_at d p of None \<Rightarrow> None | Some e \<Rightarrow> getAttribute e name)"

definition placeholder_at :: "node \<Rightarrow> path \<Rightarrow> string option" where
  "placeholder_at d p = (case element_at d p of None \<Rightarrow> None | Some e \<Rightarrow> placeholder e)"

text \<open>What is observed of a call: how it ended, the active language and the label.\<close>

definition seen :: "completion \<times> state \<Rightarrow> completion \<times> string \<times> string option" where
  "seen r = (fst r, currentLanguage (snd r), label_text (snd r))"

subsection \<open>A pass as a function on the tree\<close>

text \<open>
  What a pass of \<^verbatim>\<open>applyLanguage\<close> that selects the elements with \<open>P\<close> makes of a tree when
  no callback throws: every selected element is changed as its callback says, and below
  an element that was assigned a text nothing else is left.
\<close>

fun applied :: "(element \<Rightarrow> bool) \<Rightarrow> (element \<Rightarrow> error + change) \<Rightarrow> node \<Rightarrow> node" where
  "applied P f (Text s) = Text s"
| "applied P f (Element e ch) =
     (if P e then
        (case f e of
           Inl err \<Rightarrow> Element e (map (applied P f) ch)
         | Inr (e', Some v) \<Rightarrow> Element e' (text_nodes v)
         | Inr (e', None) \<Rightarrow> Element e' (map (applied P f) ch))
      else Element e (map (applied P f) ch))"

text \<open>What such a pass makes of the attributes and properties of one element.\<close>

definition changed :: "(element \<Rightarrow> bool) \<Rightarrow> (element \<Rightarrow> error + change) \<Rightarrow> element \<Rightarrow> element" where
  "changed P f e = (if P e then (case f e of Inl err \<Rightarrow> e | Inr (e', w) \<Rightarrow> e') else e)"

text \<open>What \<^verbatim>\<open>applyLanguage\<close> makes of the document when no callback throws.\<close>

definition bound_document :: "host \<Rightarrow> state \<Rightarrow> node" where
  "bound_document h s =
     applied (has_attribute ''data-i18n-placeholder'') (placeholder_binding s)
       (applied (has_attribute ''data-i18n-title'') (title_binding s)
          (applied (has_attribute ''data-i18n-attr'') (attr_binding h s)
             (applied (has_attribute ''data-i18n'') (text_binding s)
                (set_document_title (t_descent (translations' s) ''page.title'' [])
                   (document s)))))"

subsection \<open>Example pages and hosts\<close>

definition zh_table :: json where
  "zh_table =
     JObj [(''page'', JObj [(''title'', JStr ''Ni hao'')]),
           (''form'', JObj [(''name'', JStr ''Xingming''), (''hint'', JStr ''Nin de xingming'')])]"

definition en_table :: json where
  "en_table =
     JObj [(''page'', JObj [(''title'', JStr ''Hello'')]),
           (''form'', JObj [(''name'', JStr ''Name''), (''hint'', JStr ''Your full name'')])]"

text \<open>A table whose title has spaces around and between its words.\<close>

definition spaced_table :: json where
  "spaced_table = JObj [(''page'', JObj [(''title'', JStr ''  Hello,   world '')])]"

definition ok_response :: "json \<Rightarrow> response" where
  "ok_response j = \<lparr>ok = True, status = 200, body = Some j\<rparr>"

definition not_found :: response where
  "not_found = \<lparr>ok = False, status = 404, body = Some (JObj [(''error'', JStr ''Not Found'')])\<rparr>"

text \<open>A host that serves the listed resources and whose network fails for any other.\<close>

definition serving :: "(string \<times> response) list \<Rightarrow> host" where
  "serving pages =
     \<lparr>fetch = (\<lambda>url. case map_of pages url of None \<Rightarrow> Rejected | Some r \<Rightarrow> Resolved r),
      valid_attribute_name = (\<lambda>name. name \<noteq> [] \<and> CHR '' '' \<notin> set name)\<rparr>"

definition both_host :: host where
  "both_host =
     serving [(''/js/locales/zh.json'', ok_response zh_table),
              (''/js/locales/en.json'', ok_response en_table)]"

definition zh_only_host :: host where
  "zh_only_host = serving [(''/js/locales/zh.json'', ok_response zh_table)]"

definition not_found_host :: host where
  "not_found_host =
     serving [(''/js/locales/zh.json'', not_found), (''/js/locales/en.json'', not_found)]"

text \<open>A host whose English resource is the JSON text \<^verbatim>\<open>null\<close>.\<close>

definition null_host :: host where
  "null_host =
     serving [(''/js/locales/zh.json'', ok_response zh_table),
              (''/js/locales/en.json'', ok_response JNull)]"

text \<open>An element with the given tag name, attributes and children.\<close>

definition tag :: "string \<Rightarrow> (string \<times> string) list \<Rightarrow> node list \<Rightarrow> node" where
  "tag name attrs ch =
     Element \<lparr>tagName = name, attributes = map_of attrs, own_placeholder = None\<rparr> ch"

definition heading :: node where
  "heading = tag ''H1'' [(''data-i18n'', ''page.title'')] [Text ''...'']"

definition link :: node where
  "link = tag ''A'' [(''data-i18n-attr'', ''aria-label:page.title'')] [Text ''...'']"

definition name_field :: node where
  "name_field =
     tag ''INPUT''
       [(''data-i18n'', ''form.name''), (''data-i18n-placeholder'', ''form.hint'')] []"

text \<open>The toggle with its label, the toggle without one, and a toggle that bears a marker.\<close>

definition labelled_toggle :: node where
  "labelled_toggle =
     tag ''BUTTON'' [(''id'', ''language-switcher'')]
       [tag ''SPAN'' [(''class'', ''btn-text'')] [Text ''...'']]"

definition bare_toggle :: node where
  "bare_toggle = tag ''BUTTON'' [(''id'', ''language-switcher'')] [Text ''...'']"

definition marked_toggle :: node where
  "marked_toggle =
     tag ''BUTTON'' [(''id'', ''language-switcher''), (''data-i18n'', ''page.title'')]
       [tag ''SPAN'' [(''class'', ''btn-text'')] [Text ''...'']]"

text \<open>A page with a title and the given content of its body, and one without a title.\<close>

definition page :: "node list \<Rightarrow> node" where
  "page content =
     tag ''HTML'' []
       [tag ''HEAD'' [] [tag ''TITLE'' [] [Text ''...'']],
        tag ''BODY'' [] content]"

definition untitled_page :: "node list \<Rightarrow> node" where
  "untitled_page content = tag ''HTML'' [] [tag ''HEAD'' [] [], tag ''BODY'' [] content]"

text \<open>A state of the object with the language \<open>lang\<close> and the table \<open>tr\<close> on the document \<open>d\<close>.\<close>

definition state_with :: "string \<Rightarrow> json \<Rightarrow> node \<Rightarrow> state" where
  "state_with lang tr d =
     \<lparr>currentLanguage = lang, translations' = tr, isInitialized = True,
      localStorage = Map.empty, document = d, listeners = [], timers = 0, effects = []\<rparr>"

section \<open>Properties of the lookup\<close>

subsection \<open>What the prototype chain contributes\<close>

lemma lookup_Object_prototype:
  "lookup Object_prototype k =
     (if k \<in> set object_prototype_methods then Some Builtin_function
      else if k = ''__proto__'' then Some (Data JNull) else None)"
  by (simp add: lookup_def numeral_3_eq_3)

lemma lookup_Array_prototype:
  "lookup Array_prototype k =
     (if k = ''length'' then Some (Data (JNum 0))
      else if k \<in> set array_prototype_methods \<or> k \<in> set object_prototype_methods
      then Some Builtin_function
      else if k = ''__proto__'' then Some Object_prototype else None)"
  by (simp add: lookup_def numeral_3_eq_3)

lemma lookup_JObj:
  "lookup (Data (JObj kvs)) k =
     (case map_of kvs k of
        Some x \<Rightarrow> Some (Data x)
      | None \<Rightarrow>
          if k \<in> set object_prototype_methods then Some Builtin_function
          else if k = ''__proto__'' then Some Object_prototype else None)"
  by (simp add: lookup_def numeral_3_eq_3 split: option.splits)

lemma lookup_JArr:
  "lookup (Data (JArr xs)) k =
     (if k = ''length'' then Some (Data (JNum (int (length xs))))
      else case map_of (indexed 0 xs) k of
        Some x \<Rightarrow> Some (Data x)
      | None \<Rightarrow>
          if k \<in> set array_prototype_methods \<or> k \<in> set object_prototype_methods
          then Some Builtin_function
          else if k = ''__proto__'' then Some Array_prototype else None)"
  by (simp add: lookup_def numeral_3_eq_3 split: option.splits)

lemma miss_primitive:
  "v = Builtin_function \<or> v = Undefined \<or> v = Data JNull \<or> v = Data (JNum n) \<or> v = Data (JBool b)
   \<Longrightarrow> t_loop ks v key fb = Inr (or_key fb key)"
  by (cases ks) auto

lemma miss_Object_prototype: "t_loop ks Object_prototype key fb = Inr (or_key fb key)"
  by (cases ks)
     (simp_all add: js_in_def js_get_def is_object_def lookup_Object_prototype miss_primitive)

lemma miss_Array_prototype: "t_loop ks Array_prototype key fb = Inr (or_key fb key)"
  by (cases ks)
     (simp_all add: js_in_def js_get_def is_object_def lookup_Array_prototype miss_primitive
        miss_Object_prototype)

lemma decimal_digits: "set (decimal n) \<subseteq> set ''0123456789''"
proof (induction n rule: decimal.induct)
  case (1 n)
  have d: "digit m \<in> set ''0123456789''" if "m < 10" for m
    using that unfolding digit_def by (intro nth_mem) simp
  show ?case
  proof (cases "n < 10")
    case True
    then show ?thesis using d [of n] by (subst decimal.simps) simp
  next
    case False
    then show ?thesis using 1 d [of "n mod 10"] by (subst decimal.simps) simp
  qed
qed

lemma length_not_index: "map_of (indexed i xs) ''length'' = None"
proof (induction xs arbitrary: i)
  case Nil
  show ?case by simp
next
  case (Cons x xs)
  have "decimal i \<noteq> ''length''"
    using decimal_digits [of i] by auto
  then show ?case using Cons by simp
qed

lemma t_loop_descend:
  "t_loop ks (Data j) key fb =
     Inr (case descend ks j of Some (JStr s) \<Rightarrow> s | _ \<Rightarrow> or_key fb key)"
proof (induction ks arbitrary: j)
  case Nil
  show ?case by (cases j) simp_all
next
  case (Cons k ks)
  show ?case
  proof (cases j)
    case (JObj kvs)
    then show ?thesis
      by (simp add: js_in_def js_get_def is_object_def lookup_JObj Cons.IH miss_primitive
          miss_Object_prototype split: option.splits)
  next
    case (JArr xs)
    show ?thesis
    proof (cases "k = ''length''")
      case True
      with JArr show ?thesis
        by (simp add: js_in_def js_get_def is_object_def lookup_JArr miss_primitive
            length_not_index)
    next
      case False
      with JArr show ?thesis
        by (simp add: js_in_def js_get_def is_object_def lookup_JArr Cons.IH miss_primitive
            miss_Array_prototype split: option.splits)
    qed
  qed simp_all
qed

lemma t_is_descent: "t tr key fb = Inr (t_descent tr key fb)"
  by (simp add: t_def t_descent_def t_loop_descend or_key_def split: option.splits json.splits)

lemma array_free_entry:
  assumes "list_all (\<lambda>kv. array_free (snd kv)) kvs" and "map_of kvs k = Some j"
  shows "array_free j"
proof -
  from assms(2) have "(k, j) \<in> set kvs" by (rule map_of_SomeD)
  with assms(1) show ?thesis by (auto simp: list_all_iff)
qed

lemma descend_array_free:
  "array_free j \<Longrightarrow> descend ks j = descend_mappings ks j"
proof (induction ks arbitrary: j)
  case Nil
  show ?case by simp
next
  case (Cons k ks)
  show ?case
  proof (cases j)
    case (JObj kvs)
    show ?thesis
    proof (cases "map_of kvs k")
      case None
      with JObj show ?thesis by simp
    next
      case (Some j')
      have "array_free j'"
        using Cons.prems JObj Some by (auto intro: array_free_entry)
      then show ?thesis using JObj Some Cons.IH by simp
    qed
  next
    case (JArr xs)
    with Cons.prems show ?thesis by simp
  qed simp_all
qed

text \<open>
  C1. The claim fails for a table with an array: the program's test
  \<^verbatim>\<open>typeof value === 'object'\<close> admits an array as a level, and \<^verbatim>\<open>in\<close> finds its indices. In
  the table \<^verbatim>\<open>{"a": ["x", "y"]}\<close> the key \<^verbatim>\<open>a.1\<close> with the fallback \<^verbatim>\<open>fb\<close> gives \<^verbatim>\<open>y\<close>, where
  the descent through mappings gives the fallback, the level under \<^verbatim>\<open>a\<close> not being a
  mapping.
\<close>

theorem t_array_counterexample:
  "t (JObj [(''a'', JArr [JStr ''x'', JStr ''y''])]) ''a.1'' ''fb'' = Inr ''y''
   \<and> t_reference (JObj [(''a'', JArr [JStr ''x'', JStr ''y''])]) ''a.1'' ''fb'' = ''fb''"
  by (simp add: t_is_descent t_descent_def t_reference_def decimal.simps digit_def)

text \<open>
  C1, as amended. For every table, key and fallback, \<^verbatim>\<open>t(key, fallback)\<close> returns what the
  descent gives in which a level is a mapping or an array, the array descended by the
  decimal index of an element: the string found along the segments of the key, and
  otherwise the fallback when it is not empty, else the key. The built-in properties
  that \<^verbatim>\<open>in\<close> finds in every object never lead to a string. On a table without arrays this
  is the reference descent of the claim.
\<close>

theorem t_equals_descent:
  "t tr key fallback = Inr (t_descent tr key fallback)
   \<and> (array_free tr \<longrightarrow> t_descent tr key fallback = t_reference tr key fallback)"
proof -
  let ?keys = "split CHR ''.'' key"
  have "t tr key fallback = t_loop ?keys (Data tr) key fallback"
    by (simp add: t_def)
  also have "\<dots> = Inr (case descend ?keys tr of Some (JStr s) \<Rightarrow> s | _ \<Rightarrow> or_key fallback key)"
    by (rule t_loop_descend)
  also have "\<dots> = Inr (t_descent tr key fallback)"
    by (simp add: t_descent_def or_key_def split: option.splits json.splits)
  finally have first: "t tr key fallback = Inr (t_descent tr key fallback)" .
  have "t_descent tr key fallback = t_reference tr key fallback" if "array_free tr"
    using descend_array_free [OF that, of ?keys] by (simp add: t_descent_def t_reference_def)
  with first show ?thesis by simp
qed

theorem t_equals_descent_witness:
  "array_free en_table
   \<and> t en_table ''form.name'' ''fb'' = Inr ''Name''
   \<and> t_reference en_table ''form.name'' ''fb'' = ''Name''
   \<and> t en_table ''form.title'' ''fb'' = Inr ''fb''
   \<and> t_reference en_table ''form.title'' ''fb'' = ''fb''"
proof -
  have a: "array_free en_table" by (simp add: en_table_def)
  have r1: "t_reference en_table ''form.name'' ''fb'' = ''Name''"
    and r2: "t_reference en_table ''form.title'' ''fb'' = ''fb''"
    by (simp_all add: t_reference_def en_table_def)
  show ?thesis
    using t_equals_descent [of en_table "''form.name''" "''fb''"]
      t_equals_descent [of en_table "''form.title''" "''fb''"] a r1 r2
    by simp
qed

text \<open>
  C7. \<^verbatim>\<open>t\<close> never throws and returns a string, but the string can be empty: a leaf that is
  the empty string is returned as it is, also when a fallback is given.
\<close>

theorem t_blank_counterexample:
  "t (JObj [(''greeting'', JStr [])]) ''greeting'' ''hello'' = Inr []"
  by (simp add: t_is_descent t_descent_def)

text \<open>
  C7, as amended. For every table, key and fallback, \<^verbatim>\<open>t(key, fallback)\<close> returns without
  an error, and the string it returns is not empty unless the value found at the key is
  the empty string, or the key and the fallback are both empty.
\<close>

theorem t_returns_string:
  "\<exists>r. t tr key fallback = Inr r \<and>
       (descend (split CHR ''.'' key) tr \<noteq> Some (JStr []) \<and> (key \<noteq> [] \<or> fallback \<noteq> [])
        \<longrightarrow> r \<noteq> [])"
proof -
  let ?r = "t_descent tr key fallback"
  have returns: "t tr key fallback = Inr ?r"
    by (rule t_is_descent)
  have "?r \<noteq> []"
    if "descend (split CHR ''.'' key) tr \<noteq> Some (JStr [])" and "key \<noteq> [] \<or> fallback \<noteq> []"
    using that by (auto simp: t_descent_def split: option.splits json.splits)
  with returns show ?thesis by blast
qed

theorem t_returns_string_witness:
  "descend (split CHR ''.'' ''page.title'') (JObj [(''page'', JObj [(''title'', JStr ''Hello'')])])
     \<noteq> Some (JStr [])
   \<and> ''page.title'' \<noteq> []
   \<and> t (JObj [(''page'', JObj [(''title'', JStr ''Hello'')])]) ''page.title'' [] = Inr ''Hello''"
  using t_returns_string [of "JObj [(''page'', JObj [(''title'', JStr ''Hello'')])]" "''page.title''" "[]"]
  by (simp add: t_is_descent t_descent_def)

section \<open>Properties of loading and switching\<close>

lemma sequence_preserves:
  assumes "\<And>f s. f \<in> set fs \<Longrightarrow> g (snd (f s)) = g s"
  shows "g (snd (sequence fs s)) = g s"
  using assms
proof (induction fs arbitrary: s)
  case Nil
  show ?case by simp
next
  case (Cons f fs)
  have step: "g (snd (f s)) = g s" using Cons.prems by simp
  show ?case
  proof (cases "f s")
    case (Pair r s1)
    then show ?thesis
      using step Cons.IH [of s1] Cons.prems by (cases r) auto
  qed
qed

lemma each_element_rest: "rest_of (snd (each_element m f s)) = rest_of s"
  by (simp add: each_element_def rest_of_def split: prod.splits)

lemma update_title_rest: "rest_of (snd (update_title s)) = rest_of s"
  by (simp add: update_title_def rest_of_def split: sum.splits)

lemma log_translations_rest: "snd (log_translations c s) = s"
  by (simp add: log_translations_def split: sum.splits)

lemma applyLanguage_rest: "rest_of (snd (applyLanguage c h s)) = rest_of s"
  unfolding applyLanguage_def
  by (rule sequence_preserves)
     (auto simp: each_element_rest update_title_rest log_translations_rest)

lemma updateLanguageSwitcher_language:
  "currentLanguage (snd (updateLanguageSwitcher c s)) = currentLanguage s \<and>
   translations' (snd (updateLanguageSwitcher c s)) = translations' s"
  by (simp add: updateLanguageSwitcher_def split: option.splits)


lemma load_attempt_Thrown:
  "retrieve c h (locale_url (currentLanguage s)) = Inl e \<Longrightarrow>
   loadTranslations c h s = load_fallback h (requested (locale_url (currentLanguage s)) s)"
  by (simp add: loadTranslations_def load_attempt_def)

lemma requested_fields [simp]:
  "currentLanguage (requested url s) = currentLanguage s"
  "translations' (requested url s) = translations' s"
  "document (requested url s) = document s"
  "listeners (requested url s) = listeners s"
  "timers (requested url s) = timers s"
  "localStorage (requested url s) = localStorage s"
  by (simp_all add: requested_def)

lemma loadTranslations_language:
  "currentLanguage (snd (loadTranslations c h s)) = currentLanguage s \<or>
   currentLanguage (snd (loadTranslations c h s)) = ''zh''"
  by (auto simp: loadTranslations_def load_attempt_def load_fallback_def Let_def
      split: sum.splits)

text \<open>
  C3. \<^verbatim>\<open>switchLanguage(lang)\<close> with the active language returns at once: the whole state is
  as before, with no request made and no storage write (both would show in \<open>effects\<close>),
  the same table and the same document.
\<close>

theorem switchLanguage_same_language:
  "switchLanguage c h (currentLanguage s) s = (Returned, s)"
  by (simp add: switchLanguage_def)

text \<open>
  C5. When the \<^verbatim>\<open>try\<close> block of \<^verbatim>\<open>loadTranslations\<close> throws (the request fails, the status
  is an error in \<^verbatim>\<open>i18n.js\<close>, or the body does not parse) and the active language is
  \<^verbatim>\<open>zh\<close>, the call returns with the active language and the table as they were.
\<close>

theorem loadTranslations_failure_default:
  assumes "currentLanguage s = ''zh''"
    and "fst (load_attempt c h s) = Thrown e"
  shows "fst (loadTranslations c h s) = Returned
    \<and> currentLanguage (snd (loadTranslations c h s)) = currentLanguage s
    \<and> translations' (snd (loadTranslations c h s)) = translations' s"
  using assms
  by (auto simp: loadTranslations_def load_attempt_def load_fallback_def Let_def
      split: sum.splits)

theorem loadTranslations_failure_default_witness:
  "currentLanguage (state_with ''zh'' en_table (page [])) = ''zh''
   \<and> fst (load_attempt I18n_js (serving []) (state_with ''zh'' en_table (page [])))
       = Thrown TypeError
   \<and> fst (loadTranslations I18n_js (serving []) (state_with ''zh'' en_table (page [])))
       = Returned
   \<and> currentLanguage
        (snd (loadTranslations I18n_js (serving []) (state_with ''zh'' en_table (page []))))
       = ''zh''
   \<and> translations'
        (snd (loadTranslations I18n_js (serving []) (state_with ''zh'' en_table (page []))))
       = en_table"
proof -
  let ?s = "state_with ''zh'' en_table (page [])"
  have h1: "currentLanguage ?s = ''zh''"
    by (simp add: state_with_def)
  have h2: "fst (load_attempt I18n_js (serving []) ?s) = Thrown TypeError"
    by (simp add: load_attempt_def retrieve_def fetch_checked_def serving_def)
  show ?thesis
    using loadTranslations_failure_default [OF h1 h2] h1 h2
    by (simp add: state_with_def)
qed

text \<open>
  C4. \<^verbatim>\<open>switchLanguage('en')\<close>, called while another language is active (so that the
  English table is requested), when the retrieval of the English table fails and the
  Chinese table is fetched and parsed: afterwards the active language is \<^verbatim>\<open>zh\<close> and the
  table is the Chinese one. This holds whether or not the later steps of the call throw.
\<close>

theorem switchLanguage_fallback:
  assumes "currentLanguage s \<noteq> ''en''"
    and "retrieve c h (locale_url ''en'') = Inl e"
    and "fetch_unchecked h (locale_url ''zh'') = Inr j"
  shows "currentLanguage (snd (switchLanguage c h ''en'' s)) = ''zh''
    \<and> translations' (snd (switchLanguage c h ''en'' s)) = j"
proof -
  define s1 where "s1 = snd (select_language ''en'' s)"
  have l1: "currentLanguage s1 = ''en''"
    by (simp add: s1_def select_language_def)
  define s2 where "s2 = snd (loadTranslations c h s1)"
  have load: "loadTranslations c h s1 = (Returned, s2)"
    and l2: "currentLanguage s2 = ''zh''" and t2: "translations' s2 = j"
    using assms(2,3) l1 unfolding s2_def
    by (simp_all add: load_attempt_Thrown load_fallback_def locale_url_def)
  define s3 where "s3 = snd (applyLanguage c h s2)"
  have a3: "rest_of s3 = rest_of s2"
    unfolding s3_def by (rule applyLanguage_rest)
  have l3: "currentLanguage s3 = ''zh''" and t3: "translations' s3 = j"
    using a3 l2 t2 by (simp_all add: rest_of_def)
  have sw: "switchLanguage c h ''en'' s =
      (case applyLanguage c h s2 of
         (Returned, s') \<Rightarrow> updateLanguageSwitcher c s'
       | (Thrown x, s') \<Rightarrow> (Thrown x, s'))"
    using assms(1) load
    by (simp add: switchLanguage_def select_language_def s1_def split: prod.splits completion.splits)
  show ?thesis
  proof (cases "applyLanguage c h s2")
    case (Pair r s')
    then have s': "s' = s3" by (simp add: s3_def)
    show ?thesis
      using sw Pair s' l3 t3 updateLanguageSwitcher_language [of c s3]
      by (cases r) simp_all
  qed
qed

theorem switchLanguage_fallback_witness:
  "currentLanguage (state_with ''zh'' (JObj []) (page [heading])) \<noteq> ''en''
   \<and> retrieve I18n_js zh_only_host (locale_url ''en'') = Inl TypeError
   \<and> fetch_unchecked zh_only_host (locale_url ''zh'') = Inr zh_table
   \<and> currentLanguage
        (snd (switchLanguage I18n_js zh_only_host ''en''
               (state_with ''zh'' (JObj []) (page [heading])))) = ''zh''
   \<and> translations'
        (snd (switchLanguage I18n_js zh_only_host ''en''
               (state_with ''zh'' (JObj []) (page [heading])))) = zh_table"
proof -
  let ?s = "state_with ''zh'' (JObj []) (page [heading])"
  have h1: "currentLanguage ?s \<noteq> ''en''"
    by (simp add: state_with_def)
  have h2: "retrieve I18n_js zh_only_host (locale_url ''en'') = Inl TypeError"
    by (simp add: retrieve_def fetch_checked_def zh_only_host_def serving_def locale_url_def)
  have h3: "fetch_unchecked zh_only_host (locale_url ''zh'') = Inr zh_table"
    by (simp add: fetch_unchecked_def zh_only_host_def serving_def locale_url_def
        response_json_def ok_response_def)
  show ?thesis
    using switchLanguage_fallback [OF h1 h2 h3] h1 h2 h3 by simp
qed

section \<open>Properties of the tree\<close>

lemma node_at_append:
  "node_at n (p @ q) = (case node_at n p of None \<Rightarrow> None | Some m \<Rightarrow> node_at m q)"
proof (induction p arbitrary: n)
  case Nil
  show ?case by simp
next
  case (Cons i p)
  show ?case by (cases n) (simp_all add: Cons.IH)
qed

lemma replace_at_same: "node_at d p = Some n \<Longrightarrow> replace_at p n d = d"
proof (induction p arbitrary: d)
  case Nil
  then show ?case by simp
next
  case (Cons i p)
  then show ?case by (cases d) (auto split: if_splits)
qed

lemma replace_at_twice: "replace_at p a (replace_at p b d) = replace_at p a d"
proof (induction p arbitrary: d)
  case Nil
  show ?case by simp
next
  case (Cons i p)
  show ?case by (cases d) (simp_all add: Cons.IH)
qed

lemma node_at_replace_at:
  "node_at d p = Some n \<Longrightarrow> node_at (replace_at p m d) (p @ q) = node_at m q"
proof (induction p arbitrary: d)
  case Nil
  show ?case by simp
next
  case (Cons i p)
  then show ?case by (cases d) (auto split: if_splits)
qed

lemma replace_at_append:
  "node_at d p = Some n \<Longrightarrow> replace_at (p @ q) m d = replace_at p (replace_at q m n) d"
proof (induction p arbitrary: d)
  case Nil
  then show ?case by simp
next
  case (Cons i p)
  then show ?case by (cases d) (auto split: if_splits)
qed

lemma forEach_append:
  "forEach f d0 (ps @ qs) d =
     (case forEach f d0 ps d of
        (Returned, d') \<Rightarrow> forEach f d0 qs d'
      | (Thrown e, d') \<Rightarrow> (Thrown e, d'))"
proof (induction ps arbitrary: d)
  case Nil
  show ?case by simp
next
  case (Cons p ps)
  show ?case
    by (simp add: Cons.IH split: option.splits node.splits sum.splits prod.splits)
qed

lemma element_at_simps [simp]:
  "element_at (Text s) p = None"
  "element_at (Element e ch) [] = Some e"
  "element_at (Element e ch) (i # p) = (if i < length ch then element_at (ch ! i) p else None)"
  by (cases p; simp add: element_at_def)+

lemma element_at_append:
  "node_at n p = Some m \<Longrightarrow> element_at n (p @ q) = element_at m q"
  by (simp add: element_at_def node_at_append)

lemma select_children_member:
  assumes "\<And>n p. n \<in> set ns \<Longrightarrow> p \<in> set (querySelectorAll P n) \<Longrightarrow> \<exists>e. element_at n p = Some e \<and> P e"
    and "p \<in> set (select_children P i ns)"
  shows "\<exists>j r. p = (i + j) # r \<and> j < length ns \<and> r \<in> set (querySelectorAll P (ns ! j))"
  using assms
proof (induction ns arbitrary: i)
  case Nil
  then show ?case by simp
next
  case (Cons n ns)
  from Cons.prems(2) consider
    (here) r where "p = i # r" "r \<in> set (querySelectorAll P n)"
    | (later) "p \<in> set (select_children P (Suc i) ns)"
    by auto
  then show ?case
  proof cases
    case here
    then show ?thesis by (intro exI [of _ 0] exI [of _ r]) simp
  next
    case later
    from Cons.IH [OF _ later] Cons.prems(1) obtain j r where
      "p = (Suc i + j) # r" "j < length ns" "r \<in> set (querySelectorAll P (ns ! j))"
      by auto
    then show ?thesis by (intro exI [of _ "Suc j"] exI [of _ r]) simp
  qed
qed

lemma select_children_index:
  assumes "p \<in> set (select_children P i ns)"
  shows "\<exists>j r. p = (i + j) # r \<and> j < length ns \<and> r \<in> set (querySelectorAll P (ns ! j))"
  using assms
proof (induction ns arbitrary: i)
  case Nil
  then show ?case by simp
next
  case (Cons n ns)
  from Cons.prems consider
    (here) r where "p = i # r" "r \<in> set (querySelectorAll P n)"
    | (later) "p \<in> set (select_children P (Suc i) ns)"
    by auto
  then show ?case
  proof cases
    case here
    then show ?thesis by (intro exI [of _ 0] exI [of _ r]) simp
  next
    case later
    from Cons.IH [OF later] obtain j r where
      "p = (Suc i + j) # r" "j < length ns" "r \<in> set (querySelectorAll P (ns ! j))"
      by auto
    then show ?thesis by (intro exI [of _ "Suc j"] exI [of _ r]) simp
  qed
qed

lemma querySelectorAll_member:
  "p \<in> set (querySelectorAll P n) \<Longrightarrow> \<exists>e. element_at n p = Some e \<and> P e"
proof (induction n arbitrary: p)
  case (Text s)
  then show ?case by simp
next
  case (Element e ch)
  show ?case
  proof (cases p)
    case Nil
    with Element.prems show ?thesis
      using select_children_index [of "[]" P 0 ch] by (auto split: if_splits)
  next
    case (Cons i r)
    with Element.prems have "i # r \<in> set (select_children P 0 ch)"
      by (auto split: if_splits)
    from select_children_index [OF this] have i: "i < length ch"
      and r: "r \<in> set (querySelectorAll P (ch ! i))" by auto
    from Element.IH [OF _ r] i have "\<exists>e. element_at (ch ! i) r = Some e \<and> P e" by simp
    then show ?thesis using Cons i by simp
  qed
qed

lemma every_element_at:
  "every_element Q n \<Longrightarrow> element_at n p = Some e \<Longrightarrow> Q e"
proof (induction p arbitrary: n)
  case Nil
  then show ?case by (cases n) simp_all
next
  case (Cons i p)
  then show ?case by (cases n) (auto simp: list_all_length split: if_splits)
qed

lemma every_element_node_at:
  "every_element Q n \<Longrightarrow> node_at n p = Some m \<Longrightarrow> every_element Q m"
proof (induction p arbitrary: n)
  case Nil
  then show ?case by simp
next
  case (Cons i p)
  then show ?case by (cases n) (auto simp: list_all_length split: if_splits)
qed

lemma forEach_removed:
  assumes "\<forall>p\<in>set ps. element_at d p = None \<and>
             (\<forall>e. element_at d0 p = Some e \<longrightarrow> (\<exists>r. f e = Inr r))"
  shows "forEach f d0 ps d = (Returned, d)"
  using assms
proof (induction ps)
  case Nil
  show ?case by simp
next
  case (Cons p ps)
  have gone: "element_at d p = None" using Cons.prems by simp
  have rest: "forEach f d0 ps d = (Returned, d)" using Cons by simp
  show ?case
  proof (cases "element_at d0 p")
    case None
    then show ?thesis using gone rest
      by (auto simp: element_at_def split: option.splits node.splits)
  next
    case (Some e)
    with Cons.prems obtain r where "f e = Inr r" by auto
    then show ?thesis using gone rest Some
      by (auto simp: element_at_def split: option.splits node.splits)
  qed
qed

lemma text_nodes_texts: "element_at (Element e (text_nodes v)) (i # r) = None"
  by (simp add: text_nodes_def)

lemma forEach_children:
  assumes IH: "\<And>c D pre. c \<in> set ns \<Longrightarrow> node_at D pre = Some c \<Longrightarrow> node_at D0 pre = Some c \<Longrightarrow>
      forEach f D0 (map ((@) pre) (querySelectorAll P c)) D
        = (Returned, replace_at pre (applied P f c) D)"
    and now: "node_at D pre = Some (Element e1 (before @ ns))"
    and then': "node_at D0 pre = Some (Element e0 (before0 @ ns))"
    and len: "length before0 = length before"
  shows "forEach f D0 (map ((@) pre) (select_children P (length before) ns)) D
           = (Returned, replace_at pre (Element e1 (before @ map (applied P f) ns)) D)"
  using assms
proof (induction ns arbitrary: before before0 D)
  case Nil
  then show ?case by (simp add: replace_at_same)
next
  case (Cons c cs)
  let ?i = "length before"
  let ?A = "applied P f"
  have split_paths: "map ((@) pre) (select_children P ?i (c # cs)) =
      map ((@) (pre @ [?i])) (querySelectorAll P c) @ map ((@) pre) (select_children P (Suc ?i) cs)"
    by simp
  have c_now: "node_at D (pre @ [?i]) = Some c"
    using Cons.prems(2) by (simp add: node_at_append)
  have c_then: "node_at D0 (pre @ [?i]) = Some c"
    using Cons.prems(3,4) by (simp add: node_at_append nth_append)
  have first: "forEach f D0 (map ((@) (pre @ [?i])) (querySelectorAll P c)) D
      = (Returned, replace_at (pre @ [?i]) (?A c) D)"
    by (rule Cons.prems(1) [OF _ c_now c_then]) simp
  define D' where "D' = replace_at (pre @ [?i]) (?A c) D"
  have D': "D' = replace_at pre (Element e1 ((before @ [?A c]) @ cs)) D"
    unfolding D'_def using replace_at_append [OF Cons.prems(2), of "[?i]" "?A c"] by simp
  have now': "node_at D' pre = Some (Element e1 ((before @ [?A c]) @ cs))"
    unfolding D' using node_at_replace_at [OF Cons.prems(2), of _ "[]"] by simp
  have then'': "node_at D0 pre = Some (Element e0 ((before0 @ [c]) @ cs))"
    using Cons.prems(3) by simp
  have len': "length (before0 @ [c]) = length (before @ [?A c])"
    using Cons.prems(4) by simp
  have rest: "forEach f D0 (map ((@) pre) (select_children P (length (before @ [?A c])) cs)) D'
      = (Returned, replace_at pre (Element e1 ((before @ [?A c]) @ map ?A cs)) D')"
    by (rule Cons.IH [OF _ now' then'' len']) (rule Cons.prems(1), simp_all)
  have "replace_at pre (Element e1 ((before @ [?A c]) @ map ?A cs)) D'
      = replace_at pre (Element e1 (before @ map ?A (c # cs))) D"
    unfolding D' by (simp add: replace_at_twice)
  then show ?case
    unfolding split_paths forEach_append first using rest by (simp add: D'_def)
qed

lemma forEach_subtree:
  assumes "node_at D pre = Some n" and "node_at D0 pre = Some n"
    and "every_element (\<lambda>e. P e \<longrightarrow> (\<exists>r. f e = Inr r)) n"
  shows "forEach f D0 (map ((@) pre) (querySelectorAll P n)) D
           = (Returned, replace_at pre (applied P f n) D)"
  using assms
proof (induction n arbitrary: D pre)
  case (Text s)
  then show ?case by (simp add: replace_at_same)
next
  case (Element e ch)
  let ?ok = "\<lambda>e. P e \<longrightarrow> (\<exists>r. f e = Inr r)"
  let ?A = "applied P f"
  have sub: "forEach f D0 (map ((@) pre') (querySelectorAll P c)) D'
      = (Returned, replace_at pre' (?A c) D')"
    if "c \<in> set ch" "node_at D' pre' = Some c" "node_at D0 pre' = Some c" for c D' pre'
    using Element.IH [OF that] that(1) Element.prems(3) by (simp add: list_all_iff)
  have children: "forEach f D0 (map ((@) pre) (select_children P 0 ch)) D'
      = (Returned, replace_at pre (Element e1 (map ?A ch)) D')"
    if "node_at D' pre = Some (Element e1 ch)" for D' e1
    using forEach_children [of ch D0 f P D' pre e1 "[]" e "[]"] sub that Element.prems(2)
    by simp
  show ?case
  proof (cases "P e")
    case False
    then show ?thesis using children [OF Element.prems(1)] by simp
  next
    case True
    with Element.prems(3) obtain e' w where fe: "f e = Inr (e', w)" by auto
    define D1 where "D1 = replace_at pre (Element e' (assigned w ch)) D"
    have at1: "node_at D1 pre = Some (Element e' (assigned w ch))"
      unfolding D1_def using node_at_replace_at [OF Element.prems(1), of _ "[]"] by simp
    have step: "forEach f D0 (map ((@) pre) (querySelectorAll P (Element e ch))) D
        = forEach f D0 (map ((@) pre) (select_children P 0 ch)) D1"
      using True fe Element.prems(1) by (simp add: D1_def)
    show ?thesis
    proof (cases w)
      case None
      then have "node_at D1 pre = Some (Element e' ch)" using at1 by (simp add: assigned_def)
      from children [OF this] show ?thesis
        using step True fe None by (simp add: D1_def replace_at_twice)
    next
      case (Some v)
      have "forEach f D0 (map ((@) pre) (select_children P 0 ch)) D1 = (Returned, D1)"
      proof (rule forEach_removed, rule ballI)
        fix p assume "p \<in> set (map ((@) pre) (select_children P 0 ch))"
        then obtain q where q: "q \<in> set (select_children P 0 ch)" and p: "p = pre @ q" by auto
        from select_children_index [OF q] obtain j r where
          qj: "q = j # r" and j: "j < length ch" and r: "r \<in> set (querySelectorAll P (ch ! j))"
          by auto
        have gone: "element_at D1 p = None"
          using element_at_append [OF at1, of q] p qj Some
          by (simp add: assigned_def text_nodes_def)
        from querySelectorAll_member [OF r] obtain x where
          x: "element_at (ch ! j) r = Some x" and Px: "P x" by auto
        have "element_at D0 p = Some x"
          using element_at_append [OF Element.prems(2), of q] p qj j x by simp
        moreover have "\<exists>r. f x = Inr r"
        proof -
          have "every_element ?ok (ch ! j)"
            using Element.prems(3) j by (simp add: list_all_length)
          from every_element_at [OF this x] Px show ?thesis by simp
        qed
        ultimately show "element_at D1 p = None \<and>
            (\<forall>e. element_at D0 p = Some e \<longrightarrow> (\<exists>r. f e = Inr r))"
          using gone by simp
      qed
      then show ?thesis
        using step True fe Some by (simp add: D1_def assigned_def)
    qed
  qed
qed

lemma forEach_applied:
  assumes "every_element (\<lambda>e. P e \<longrightarrow> (\<exists>r. f e = Inr r)) d"
  shows "forEach f d (querySelectorAll P d) d = (Returned, applied P f d)"
proof -
  have "map ((@) []) (querySelectorAll P d) = querySelectorAll P d"
    by (rule map_idI) simp
  then show ?thesis
    using forEach_subtree [of d "[]" d d P f] assms by simp
qed

lemma node_at_applied:
  assumes "\<And>e e' v. P e \<Longrightarrow> f e = Inr (e', Some v) \<Longrightarrow> W e"
    and "kept W n p" and "node_at n p = Some m"
  shows "node_at (applied P f n) p = Some (applied P f m)"
  using assms(2,3)
proof (induction p arbitrary: n)
  case Nil
  then show ?case by simp
next
  case (Cons i p)
  show ?case
  proof (cases n)
    case (Text s)
    with Cons.prems show ?thesis by simp
  next
    case (Element e ch)
    with Cons.prems have i: "i < length ch" and nW: "\<not> W e"
      and k: "kept W (ch ! i) p" and at: "node_at (ch ! i) p = Some m"
      by (auto split: if_splits)
    have sub: "node_at (applied P f (ch ! i)) p = Some (applied P f m)"
      by (rule Cons.IH [OF k at])
    have "applied P f n = Element (case f e of Inr (e', w) \<Rightarrow> if P e then e' else e | Inl x \<Rightarrow> e)
        (map (applied P f) ch)"
      using Element nW assms(1) [of e]
      by (auto split: sum.splits prod.splits option.splits)
    then show ?thesis using i sub by simp
  qed
qed

lemma every_element_applied:
  assumes "\<And>e e' w. P e \<Longrightarrow> Q e \<Longrightarrow> f e = Inr (e', w) \<Longrightarrow> Q e'"
    and "every_element Q n"
  shows "every_element Q (applied P f n)"
  using assms(2)
proof (induction n)
  case (Text s)
  show ?case by simp
next
  case (Element e ch)
  have ch: "list_all (every_element Q) (map (applied P f) ch)"
    using Element by (simp add: list_all_iff)
  have texts: "list_all (every_element Q) (text_nodes v)" for v
    by (simp add: text_nodes_def)
  show ?case
    using Element.prems ch texts assms(1) [of e]
    by (auto split: sum.splits prod.splits option.splits)
qed

lemma every_element_replace_at:
  "every_element Q n \<Longrightarrow> every_element Q m \<Longrightarrow> every_element Q (replace_at q m n)"
proof (induction q arbitrary: n)
  case Nil
  then show ?case by simp
next
  case (Cons i q)
  show ?case
  proof (cases n)
    case (Text s)
    then show ?thesis by simp
  next
    case (Element e ch)
    show ?thesis
    proof (cases "i < length ch")
      case False
      with Element Cons.prems show ?thesis by simp
    next
      case True
      have all: "\<forall>c\<in>set ch. every_element Q c" and Qe: "Q e"
        using Cons.prems(1) Element by (simp_all add: list_all_iff)
      have "every_element Q (replace_at q m (ch ! i))"
        using Cons.IH [of "ch ! i"] all True Cons.prems(2) by simp
      then have "\<forall>c\<in>set (ch[i := replace_at q m (ch ! i)]). every_element Q c"
        using all set_update_subset_insert [of ch i "replace_at q m (ch ! i)"] by auto
      then show ?thesis using Element True Qe by (simp add: list_all_iff)
    qed
  qed
qed

lemma element_at_replace_at:
  assumes "node_at n q = Some (Element e ch)" and "element_at n p = Some x"
    and "\<And>r. r \<noteq> [] \<Longrightarrow> p = q @ r \<Longrightarrow> element_at (Element e chs) r = Some x"
  shows "element_at (replace_at q (Element e chs) n) p = Some x"
  using assms
proof (induction q arbitrary: n p)
  case Nil
  show ?case
  proof (cases p)
    case Nil
    with Nil.prems show ?thesis by simp
  next
    case (Cons j p')
    then show ?thesis using Nil.prems(3) [of p] by simp
  qed
next
  case (Cons i q)
  show ?case
  proof (cases n)
    case (Text s)
    with Cons.prems show ?thesis by simp
  next
    case (Element e0 ch0)
    with Cons.prems(1) have i: "i < length ch0" and at: "node_at (ch0 ! i) q = Some (Element e ch)"
      by (auto split: if_splits)
    show ?thesis
    proof (cases p)
      case Nil
      with Cons.prems(2) Element i show ?thesis by simp
    next
      case (Cons j p')
      show ?thesis
      proof (cases "j = i")
        case False
        then show ?thesis using Cons.prems(2) Element Cons i by (auto split: if_splits)
      next
        case True
        have x: "element_at (ch0 ! i) p' = Some x"
          using Cons.prems(2) Element Cons True i by simp
        have "element_at (replace_at q (Element e chs) (ch0 ! i)) p' = Some x"
        proof (rule Cons.IH [OF at x])
          fix r assume "r \<noteq> []" "p' = q @ r"
          then show "element_at (Element e chs) r = Some x"
            using Cons.prems(3) [of r] Cons True by simp
        qed
        then show ?thesis using Element Cons True i by simp
      qed
    qed
  qed
qed

lemma kept_replace_at:
  assumes "node_at n q = Some (Element e ch)"
    and "\<And>i r. kept W (Element e ch) (i # r) \<Longrightarrow> kept W (Element e chs) (i # r)"
    and "kept W n p"
  shows "kept W (replace_at q (Element e chs) n) p"
  using assms
proof (induction q arbitrary: n p)
  case Nil
  then show ?case by (cases p) simp_all
next
  case (Cons i q)
  show ?case
  proof (cases n)
    case (Text s)
    with Cons.prems show ?thesis by simp
  next
    case (Element e0 ch0)
    with Cons.prems(1) have i: "i < length ch0" and at: "node_at (ch0 ! i) q = Some (Element e ch)"
      by (auto split: if_splits)
    show ?thesis
    proof (cases p)
      case Nil
      then show ?thesis by simp
    next
      case (Cons j p')
      show ?thesis
      proof (cases "j = i")
        case False
        then show ?thesis using Cons.prems(3) Element Cons i by (auto split: if_splits)
      next
        case True
        have k: "kept W (ch0 ! i) p'" and nW: "\<not> W e0"
          using Cons.prems(3) Element Cons True i by simp_all
        have "kept W (replace_at q (Element e chs) (ch0 ! i)) p'"
          by (rule Cons.IH [OF at Cons.prems(2) k])
        then show ?thesis using Element Cons True i nW by simp
      qed
    qed
  qed
qed

lemma select_children_head:
  assumes "x \<in> set (select_children P k ns)"
  shows "\<exists>j r. x = j # r \<and> k \<le> j \<and> j < k + length ns"
  using select_children_index [OF assms] by auto

lemma select_children_append:
  "select_children P k (xs @ ys) = select_children P k xs @ select_children P (k + length xs) ys"
  by (induction xs arbitrary: k) simp_all

lemma select_children_text_nodes [simp]: "select_children P k (text_nodes v) = []"
  by (simp add: text_nodes_def)

lemma select_children_map:
  assumes "\<forall>c\<in>set ns. querySelectorAll T (A c) = filter (K c) (querySelectorAll T c)"
  shows "select_children T k (map A ns) =
           filter (\<lambda>x. K (ns ! (hd x - k)) (tl x)) (select_children T k ns)"
  using assms
proof (induction ns arbitrary: k)
  case Nil
  show ?case by simp
next
  case (Cons c cs)
  have first: "map ((#) k) (querySelectorAll T (A c)) =
      filter (\<lambda>x. K ((c # cs) ! (hd x - k)) (tl x)) (map ((#) k) (querySelectorAll T c))"
    using Cons.prems by (simp add: filter_map comp_def)
  have "select_children T (Suc k) (map A cs) =
      filter (\<lambda>x. K (cs ! (hd x - Suc k)) (tl x)) (select_children T (Suc k) cs)"
    using Cons by simp
  also have "\<dots> = filter (\<lambda>x. K ((c # cs) ! (hd x - k)) (tl x)) (select_children T (Suc k) cs)"
  proof (rule filter_cong [OF refl])
    fix x assume "x \<in> set (select_children T (Suc k) cs)"
    from select_children_head [OF this] obtain j r where "x = j # r" "Suc k \<le> j" by auto
    then show "K (cs ! (hd x - Suc k)) (tl x) = K ((c # cs) ! (hd x - k)) (tl x)"
      by (simp add: Suc_diff_le)
  qed
  finally show ?case using first by simp
qed

lemma querySelectorAll_applied:
  assumes W: "\<And>e. W e = (P e \<and> (\<exists>e' v. f e = Inr (e', Some v)))"
    and T: "\<And>e e' w. P e \<Longrightarrow> f e = Inr (e', w) \<Longrightarrow> T e' = T e"
  shows "querySelectorAll T (applied P f n) = filter (kept W n) (querySelectorAll T n)"
proof (induction n)
  case (Text s)
  show ?case by simp
next
  case (Element e ch)
  show ?case
  proof (cases "W e")
    case True
    then obtain e' v where Pe: "P e" and fe: "f e = Inr (e', Some v)" using W by auto
    have "filter (kept W (Element e ch)) (select_children T 0 ch) = []"
    proof -
      have "\<not> kept W (Element e ch) x" if "x \<in> set (select_children T 0 ch)" for x
        using select_children_head [OF that] True by auto
      then show ?thesis by (simp add: filter_empty_conv)
    qed
    then show ?thesis using Pe fe T [OF Pe fe] by simp
  next
    case False
    define e1 where "e1 = (case f e of Inr (e', w) \<Rightarrow> if P e then e' else e | Inl x \<Rightarrow> e)"
    have ap: "applied P f (Element e ch) = Element e1 (map (applied P f) ch)"
      using False W [of e] unfolding e1_def
      by (auto split: sum.splits prod.splits option.splits)
    have Te: "T e1 = T e"
      unfolding e1_def using T [of e] by (auto split: sum.splits prod.splits)
    have "select_children T 0 (map (applied P f) ch) =
        filter (\<lambda>x. kept W (ch ! (hd x - 0)) (tl x)) (select_children T 0 ch)"
      by (rule select_children_map) (use Element.IH in simp)
    also have "\<dots> = filter (kept W (Element e ch)) (select_children T 0 ch)"
    proof (rule filter_cong [OF refl])
      fix x assume "x \<in> set (select_children T 0 ch)"
      from select_children_head [OF this] obtain j r where "x = j # r" "j < length ch" by auto
      then show "kept W (ch ! (hd x - 0)) (tl x) = kept W (Element e ch) x"
        using False by simp
    qed
    finally show ?thesis using ap Te by simp
  qed
qed

lemma select_children_update:
  assumes "i < length ns"
    and "querySelectorAll T m = filter F (querySelectorAll T (ns ! i))"
  shows "select_children T k (ns[i := m]) =
           filter (\<lambda>x. hd x = k + i \<longrightarrow> F (tl x)) (select_children T k ns)"
proof -
  let ?G = "\<lambda>x. hd x = k + i \<longrightarrow> F (tl x)"
  let ?a = "take i ns" and ?b = "drop (Suc i) ns"
  have len: "length ?a = i" using assms(1) by simp
  have ns: "ns = ?a @ [ns ! i] @ ?b"
    using id_take_nth_drop [OF assms(1)] by simp
  have upd: "ns[i := m] = ?a @ [m] @ ?b"
    using upd_conv_take_nth_drop [OF assms(1)] by simp
  have a: "filter ?G (select_children T k ?a) = select_children T k ?a"
  proof -
    have "?G x" if "x \<in> set (select_children T k ?a)" for x
      using select_children_head [OF that] len by auto
    then show ?thesis by (simp add: filter_id_conv)
  qed
  have b: "filter ?G (select_children T (Suc (k + i)) ?b) = select_children T (Suc (k + i)) ?b"
  proof -
    have "?G x" if "x \<in> set (select_children T (Suc (k + i)) ?b)" for x
      using select_children_head [OF that] by auto
    then show ?thesis by (simp add: filter_id_conv)
  qed
  have mid: "map ((#) (k + i)) (querySelectorAll T m) =
      filter ?G (map ((#) (k + i)) (querySelectorAll T (ns ! i)))"
    using assms(2) by (simp add: filter_map comp_def)
  have "select_children T k (ns[i := m]) =
      select_children T k ?a @ map ((#) (k + i)) (querySelectorAll T m)
        @ select_children T (Suc (k + i)) ?b"
    unfolding upd using assms(1) by (simp add: select_children_append min_def)
  moreover have "select_children T k ns =
      select_children T k ?a @ map ((#) (k + i)) (querySelectorAll T (ns ! i))
        @ select_children T (Suc (k + i)) ?b"
    by (subst ns) (use assms(1) in \<open>simp add: select_children_append min_def\<close>)
  ultimately show ?thesis using a b mid by simp
qed

lemma querySelectorAll_replace_at:
  assumes "node_at n lp = Some (Element e ch)"
    and "select_children T 0 chs = []" and "T e' = T e"
  shows "querySelectorAll T (replace_at lp (Element e' chs) n) =
           filter (\<lambda>x. \<not> strict_prefix lp x) (querySelectorAll T n)"
  using assms(1)
proof (induction lp arbitrary: n)
  case Nil
  have "filter (\<lambda>x. \<not> strict_prefix [] x) (select_children T 0 ch) = []"
  proof -
    have "strict_prefix [] x" if "x \<in> set (select_children T 0 ch)" for x
      using select_children_head [OF that] by auto
    then show ?thesis by (simp add: filter_empty_conv)
  qed
  then show ?case using Nil assms(2,3) by simp
next
  case (Cons i q)
  show ?case
  proof (cases n)
    case (Text s)
    with Cons.prems show ?thesis by simp
  next
    case (Element e0 ch0)
    with Cons.prems have i: "i < length ch0" and at: "node_at (ch0 ! i) q = Some (Element e ch)"
      by (auto split: if_splits)
    let ?m = "replace_at q (Element e' chs) (ch0 ! i)"
    have "select_children T 0 (ch0[i := ?m]) =
        filter (\<lambda>x. hd x = 0 + i \<longrightarrow> \<not> strict_prefix q (tl x)) (select_children T 0 ch0)"
      by (rule select_children_update [OF i Cons.IH [OF at]])
    also have "\<dots> = filter (\<lambda>x. \<not> strict_prefix (i # q) x) (select_children T 0 ch0)"
    proof (rule filter_cong [OF refl])
      fix x assume "x \<in> set (select_children T 0 ch0)"
      from select_children_head [OF this] obtain j r where "x = j # r" by auto
      then show "(hd x = 0 + i \<longrightarrow> \<not> strict_prefix q (tl x)) = (\<not> strict_prefix (i # q) x)"
        by auto
    qed
    finally show ?thesis using Element i by simp
  qed
qed

lemma first_of_filter:
  "first_of xs = Some x \<Longrightarrow> S x \<Longrightarrow> first_of (filter S xs) = Some x"
  by (cases xs) (simp_all add: first_of_def)

lemma every_elementI: "(\<And>e. Q e) \<Longrightarrow> every_element Q n"
  by (induction n) (simp_all add: list_all_iff)

lemma every_element_mono:
  "(\<And>e. Q e \<Longrightarrow> Q' e) \<Longrightarrow> every_element Q n \<Longrightarrow> every_element Q' n"
  by (induction n) (simp_all add: list_all_iff)

lemma kept_never [simp]: "kept (\<lambda>e. False) n p"
  by (induction "\<lambda>e::element. False" n p rule: kept.induct) simp_all

lemma map_applied_text_nodes [simp]: "map (applied P f) (text_nodes v) = text_nodes v"
  by (simp add: text_nodes_def)

lemma child_text_text_nodes [simp]: "child_text (text_nodes v) = v"
  by (simp add: text_nodes_def)

lemma textContent_text_nodes [simp]: "textContent (Element e (text_nodes v)) = v"
  by (simp add: text_nodes_def)

lemma applied_Element:
  "applied P f (Element e ch) =
     Element (changed P f e)
       (if P e then (case f e of Inr (e', Some v) \<Rightarrow> text_nodes v | _ \<Rightarrow> map (applied P f) ch)
        else map (applied P f) ch)"
  by (simp add: changed_def split: sum.splits prod.splits option.splits)

section \<open>Properties of \<^verbatim>\<open>applyLanguage\<close>\<close>

lemma getAttribute_marker:
  "getAttribute el ''data-i18n'' = attributes el ''data-i18n''"
  "getAttribute el ''data-i18n-attr'' = attributes el ''data-i18n-attr''"
  "getAttribute el ''data-i18n-title'' = attributes el ''data-i18n-title''"
  "getAttribute el ''data-i18n-placeholder'' = attributes el ''data-i18n-placeholder''"
  "getAttribute el ''id'' = attributes el ''id''"
  "getAttribute el ''class'' = attributes el ''class''"
  by (simp_all add: getAttribute_def lower_char_def)

lemma binding_cong:
  assumes "translations' a = translations' b"
  shows "text_binding a = text_binding b" and "attr_binding h a = attr_binding h b"
    and "title_binding a = title_binding b" and "placeholder_binding a = placeholder_binding b"
  unfolding fun_eq_iff text_binding_def attr_binding_def title_binding_def
    placeholder_binding_def assms
  by simp_all

lemma text_binding_returns:
  "has_attribute ''data-i18n'' e \<Longrightarrow> \<exists>r. text_binding s e = Inr r"
  by (auto simp: text_binding_def has_attribute_def t_is_descent)

lemma title_binding_returns:
  "has_attribute ''data-i18n-title'' e \<Longrightarrow> \<exists>r. title_binding s e = Inr r"
  by (auto simp: title_binding_def has_attribute_def t_is_descent)

lemma placeholder_binding_returns:
  "has_attribute ''data-i18n-placeholder'' e \<Longrightarrow> \<exists>r. placeholder_binding s e = Inr r"
  by (auto simp: placeholder_binding_def has_attribute_def t_is_descent)

lemma attr_binding_returns:
  "well_marked h e \<Longrightarrow> has_attribute ''data-i18n-attr'' e \<Longrightarrow> \<exists>r. attr_binding h s e = Inr r"
  by (auto simp: attr_binding_def well_marked_def has_attribute_def setAttribute_def t_is_descent
      split: option.splits list.splits)

lemma text_binding_replaces:
  "replaced_by_text e =
     (has_attribute ''data-i18n'' e \<and> (\<exists>e' v. text_binding s e = Inr (e', Some v)))"
  by (auto simp: replaced_by_text_def text_binding_def has_attribute_def input_like_def
      t_is_descent split: option.splits)

lemma data_only:
  "attr_binding h s e = Inr (e', w) \<Longrightarrow> w = None"
  "title_binding s e = Inr (e', w) \<Longrightarrow> w = None"
  "placeholder_binding s e = Inr (e', w) \<Longrightarrow> w = None"
  by (auto simp: attr_binding_def title_binding_def placeholder_binding_def
      split: option.splits list.splits sum.splits)

lemma binding_tagName:
  "text_binding s e = Inr (e', w) \<Longrightarrow> tagName e' = tagName e"
  "attr_binding h s e = Inr (e', w) \<Longrightarrow> tagName e' = tagName e"
  "title_binding s e = Inr (e', w) \<Longrightarrow> tagName e' = tagName e"
  "placeholder_binding s e = Inr (e', w) \<Longrightarrow> tagName e' = tagName e"
  by (auto simp: text_binding_def attr_binding_def title_binding_def placeholder_binding_def
      set_placeholder_def set_title_def setAttribute_def
      split: option.splits list.splits sum.splits if_splits)

lemma each_element_applied:
  assumes "every_element (\<lambda>e. has_attribute m e \<longrightarrow> (\<exists>r. f s e = Inr r)) (document s)"
  shows "each_element m f s =
           (Returned, s\<lparr>document := applied (has_attribute m) (f s) (document s)\<rparr>)"
  using forEach_applied [OF assms] by (simp add: each_element_def)

lemma kept_Text [simp]: "kept W (Text s) p"
  by (cases p) simp_all

lemma every_element_set_children:
  assumes "every_element Q d"
  shows "every_element Q (set_children q (text_nodes v) d)"
proof (cases "node_at d q")
  case None
  then show ?thesis using assms by (simp add: set_children_def)
next
  case (Some n)
  show ?thesis
  proof (cases n)
    case (Text s)
    then show ?thesis using assms Some by (simp add: set_children_def)
  next
    case (Element e ch)
    have "every_element Q (Element e ch)"
      using every_element_node_at [OF assms Some] Element by simp
    then have "every_element Q (Element e (text_nodes v))"
      by (simp add: text_nodes_def)
    then show ?thesis
      using assms Some Element by (simp add: set_children_def every_element_replace_at)
  qed
qed

lemma every_element_append_child:
  assumes "every_element Q d" and "every_element Q m"
  shows "every_element Q (append_child q m d)"
proof (cases "node_at d q")
  case None
  then show ?thesis using assms by (simp add: append_child_def)
next
  case (Some n)
  show ?thesis
  proof (cases n)
    case (Text s)
    then show ?thesis using assms Some by (simp add: append_child_def)
  next
    case (Element e ch)
    have "every_element Q (Element e ch)"
      using every_element_node_at [OF assms(1) Some] Element by simp
    then have "every_element Q (Element e (ch @ [m]))"
      using assms(2) by simp
    then show ?thesis
      using assms Some Element by (simp add: append_child_def every_element_replace_at)
  qed
qed

lemma every_element_set_document_title:
  assumes "every_element Q d"
    and "Q \<lparr>tagName = ''TITLE'', attributes = Map.empty, own_placeholder = None\<rparr>"
  shows "every_element Q (set_document_title v d)"
proof -
  have "every_element Q (new_title_element v)"
    using assms(2) by (simp add: new_title_element_def text_nodes_def)
  then show ?thesis
    using assms(1)
    by (simp add: set_document_title_def every_element_set_children every_element_append_child
        split: option.splits)
qed

lemma element_at_node_at:
  "element_at d p = Some e \<longleftrightarrow> (\<exists>ch. node_at d p = Some (Element e ch))"
  by (auto simp: element_at_def split: option.splits node.splits)

lemma element_at_set_document_title:
  assumes "element_at d p = Some x"
    and "\<And>q. title_element d = Some q \<Longrightarrow> \<not> strict_prefix q p"
  shows "element_at (set_document_title v d) p = Some x"
proof (cases "title_element d")
  case (Some q)
  show ?thesis
  proof (cases "element_at d q")
    case None
    then show ?thesis using Some assms(1)
      by (auto simp: set_document_title_def set_children_def element_at_def
          split: option.splits node.splits)
  next
    case (Some e)
    then obtain ch where at: "node_at d q = Some (Element e ch)"
      by (auto simp: element_at_node_at)
    have "element_at (replace_at q (Element e (text_nodes v)) d) p = Some x"
    proof (rule element_at_replace_at [OF at assms(1)])
      fix r assume "r \<noteq> []" "p = q @ r"
      then have "strict_prefix q p" by (simp add: strict_prefix_def)
      with assms(2) [OF \<open>title_element d = Some q\<close>]
      show "element_at (Element e (text_nodes v)) r = Some x" by simp
    qed
    then show ?thesis
      using \<open>title_element d = Some q\<close> at by (simp add: set_document_title_def set_children_def)
  qed
next
  case None
  show ?thesis
  proof (cases "head_element d")
    case no_head: None
    then show ?thesis using None assms(1) by (simp add: set_document_title_def)
  next
    case (Some hq)
    show ?thesis
    proof (cases "element_at d hq")
      case no: None
      then show ?thesis using None Some assms(1)
        by (auto simp: set_document_title_def append_child_def element_at_def
            split: option.splits node.splits)
    next
      case (Some e)
      then obtain ch where at: "node_at d hq = Some (Element e ch)"
        by (auto simp: element_at_node_at)
      have "element_at (replace_at hq (Element e (ch @ [new_title_element v])) d) p = Some x"
      proof (rule element_at_replace_at [OF at assms(1)])
        fix r assume r: "r \<noteq> []" "p = hq @ r"
        then have "element_at (Element e ch) r = Some x"
          using element_at_append [OF at, of r] assms(1) by simp
        with r(1) show "element_at (Element e (ch @ [new_title_element v])) r = Some x"
          by (cases r) (auto simp: nth_append split: if_splits)
      qed
      then show ?thesis
        using None \<open>head_element d = Some hq\<close> at
        by (simp add: set_document_title_def append_child_def)
    qed
  qed
qed

lemma kept_set_document_title:
  assumes "kept W d p"
    and "\<not> W \<lparr>tagName = ''TITLE'', attributes = Map.empty, own_placeholder = None\<rparr>"
  shows "kept W (set_document_title v d) p"
proof (cases "title_element d")
  case (Some q)
  show ?thesis
  proof (cases "element_at d q")
    case None
    then show ?thesis using Some assms(1)
      by (auto simp: set_document_title_def set_children_def element_at_def
          split: option.splits node.splits)
  next
    case (Some e)
    then obtain ch where at: "node_at d q = Some (Element e ch)"
      by (auto simp: element_at_node_at)
    have "kept W (replace_at q (Element e (text_nodes v)) d) p"
      by (rule kept_replace_at [OF at _ assms(1)]) (simp add: text_nodes_def)
    then show ?thesis
      using \<open>title_element d = Some q\<close> at by (simp add: set_document_title_def set_children_def)
  qed
next
  case None
  show ?thesis
  proof (cases "head_element d")
    case no_head: None
    then show ?thesis using None assms(1) by (simp add: set_document_title_def)
  next
    case (Some hq)
    show ?thesis
    proof (cases "element_at d hq")
      case no: None
      then show ?thesis using None Some assms(1)
        by (auto simp: set_document_title_def append_child_def element_at_def
            split: option.splits node.splits)
    next
      case (Some e)
      then obtain ch where at: "node_at d hq = Some (Element e ch)"
        by (auto simp: element_at_node_at)
      have new: "kept W (new_title_element v) r" for r
        using assms(2) by (cases r) (simp_all add: new_title_element_def text_nodes_def)
      have "kept W (replace_at hq (Element e (ch @ [new_title_element v])) d) p"
      proof (rule kept_replace_at [OF at _ assms(1)])
        fix i r assume "kept W (Element e ch) (i # r)"
        then show "kept W (Element e (ch @ [new_title_element v])) (i # r)"
          using new [of r] by (auto simp: nth_append split: if_splits)
      qed
      then show ?thesis
        using None \<open>head_element d = Some hq\<close> at
        by (simp add: set_document_title_def append_child_def)
    qed
  qed
qed

lemma well_marked_new_title:
  "well_marked h \<lparr>tagName = ''TITLE'', attributes = Map.empty, own_placeholder = None\<rparr>"
  by (simp add: well_marked_def getAttribute_def)

lemma text_binding_well_marked:
  "text_binding s e = Inr (e', w) \<Longrightarrow> well_marked h e' = well_marked h e"
  by (auto simp: text_binding_def well_marked_def getAttribute_marker set_placeholder_def
      split: option.splits sum.splits if_splits)

lemma log_translations_returns:
  "c = Part_000 \<or> translations' s \<noteq> JNull \<Longrightarrow> log_translations c s = (Returned, s)"
  by (cases "translations' s") (auto simp: log_translations_def)

lemma log_translations_null:
  "translations' s = JNull \<Longrightarrow> log_translations I18n_js s = (Thrown TypeError, s)"
  by (simp add: log_translations_def)

lemma update_title_returns:
  "update_title s =
     (Returned,
      s\<lparr>document := set_document_title (t_descent (translations' s) ''page.title'' [])
                       (document s)\<rparr>)"
  by (simp add: update_title_def t_is_descent)

lemma applyLanguage_run:
  assumes "c = Part_000 \<or> translations' s \<noteq> JNull"
    and "every_element (well_marked h) (document s)"
  shows "applyLanguage c h s = (Returned, s\<lparr>document := bound_document h s\<rparr>)"
proof -
  let ?P1 = "has_attribute ''data-i18n''" and ?P2 = "has_attribute ''data-i18n-attr''"
  let ?P3 = "has_attribute ''data-i18n-title''" and ?P4 = "has_attribute ''data-i18n-placeholder''"
  define d1 where "d1 = set_document_title (t_descent (translations' s) ''page.title'' []) (document s)"
  define d2 where "d2 = applied ?P1 (text_binding s) d1"
  define d3 where "d3 = applied ?P2 (attr_binding h s) d2"
  define d4 where "d4 = applied ?P3 (title_binding s) d3"
  define d5 where "d5 = applied ?P4 (placeholder_binding s) d4"
  have w1: "every_element (well_marked h) d1"
    unfolding d1_def
    by (rule every_element_set_document_title [OF assms(2) well_marked_new_title])
  have w2: "every_element (well_marked h) d2"
    unfolding d2_def
    by (rule every_element_applied [OF _ w1]) (simp add: text_binding_well_marked)
  have s0: "log_translations c s = (Returned, s)"
    by (rule log_translations_returns [OF assms(1)])
  have s1: "update_title s = (Returned, s\<lparr>document := d1\<rparr>)"
    by (simp add: update_title_returns d1_def)
  have c1: "text_binding (s\<lparr>document := d1\<rparr>) = text_binding s"
    by (rule binding_cong) simp
  have s2: "each_element ''data-i18n'' text_binding (s\<lparr>document := d1\<rparr>)
      = (Returned, s\<lparr>document := d2\<rparr>)"
    using each_element_applied [of "''data-i18n''" text_binding "s\<lparr>document := d1\<rparr>"]
      every_elementI [of "\<lambda>e. ?P1 e \<longrightarrow> (\<exists>r. text_binding s e = Inr r)" d1]
      text_binding_returns [of _ s]
    by (simp add: c1 d2_def)
  have c2: "attr_binding h (s\<lparr>document := d2\<rparr>) = attr_binding h s"
    by (rule binding_cong) simp
  have ok2: "every_element (\<lambda>e. ?P2 e \<longrightarrow> (\<exists>r. attr_binding h s e = Inr r)) d2"
    by (rule every_element_mono [OF _ w2]) (rule impI, rule attr_binding_returns)
  have s3: "each_element ''data-i18n-attr'' (attr_binding h) (s\<lparr>document := d2\<rparr>)
      = (Returned, s\<lparr>document := d3\<rparr>)"
    using each_element_applied [of "''data-i18n-attr''" "attr_binding h" "s\<lparr>document := d2\<rparr>"] ok2
    by (simp add: c2 d3_def)
  have c3: "title_binding (s\<lparr>document := d3\<rparr>) = title_binding s"
    by (rule binding_cong) simp
  have s4: "each_element ''data-i18n-title'' title_binding (s\<lparr>document := d3\<rparr>)
      = (Returned, s\<lparr>document := d4\<rparr>)"
    using each_element_applied [of "''data-i18n-title''" title_binding "s\<lparr>document := d3\<rparr>"]
      every_elementI [of "\<lambda>e. ?P3 e \<longrightarrow> (\<exists>r. title_binding s e = Inr r)" d3]
      title_binding_returns [of _ s]
    by (simp add: c3 d4_def)
  have c4: "placeholder_binding (s\<lparr>document := d4\<rparr>) = placeholder_binding s"
    by (rule binding_cong) simp
  have s5: "each_element ''data-i18n-placeholder'' placeholder_binding (s\<lparr>document := d4\<rparr>)
      = (Returned, s\<lparr>document := d5\<rparr>)"
    using each_element_applied
        [of "''data-i18n-placeholder''" placeholder_binding "s\<lparr>document := d4\<rparr>"]
      every_elementI [of "\<lambda>e. ?P4 e \<longrightarrow> (\<exists>r. placeholder_binding s e = Inr r)" d4]
      placeholder_binding_returns [of _ s]
    by (simp add: c4 d5_def)
  have "bound_document h s = d5"
    by (simp add: bound_document_def d5_def d4_def d3_def d2_def d1_def)
  then show ?thesis
    unfolding applyLanguage_def using s0 s1 s2 s3 s4 s5 by simp
qed

lemma text_changed_fields:
  assumes "e1 = changed (has_attribute ''data-i18n'') (text_binding s) e"
  shows "tagName e1 = tagName e" and "own_placeholder e1 = own_placeholder e"
    and "n \<noteq> ''placeholder'' \<Longrightarrow> attributes e1 n = attributes e n"
    and "\<not> input_like e \<Longrightarrow> e1 = e"
  using assms
  by (auto simp: changed_def text_binding_def set_placeholder_def input_like_def t_is_descent
      split: option.splits if_splits)

lemma text_changed_sets:
  assumes "e1 = changed (has_attribute ''data-i18n'') (text_binding s) e"
    and "getAttribute e ''data-i18n'' = Some key"
  shows "\<exists>v. t (translations' s) key [] = Inr v \<and>
           (if input_like e then attributes e1 ''placeholder'' = Some v
            else text_binding s e = Inr (e, Some v))"
  using assms
  by (auto simp: changed_def has_attribute_def text_binding_def set_placeholder_def
      input_like_def t_is_descent split: option.splits if_splits)

lemma attr_changed_fields:
  assumes "e2 = changed (has_attribute ''data-i18n-attr'') (attr_binding h s) e1"
  shows "tagName e2 = tagName e1" and "own_placeholder e2 = own_placeholder e1"
    and "attr_target e1 \<noteq> Some n \<Longrightarrow> attributes e2 n = attributes e1 n"
  using assms
  by (auto simp: changed_def attr_binding_def attr_target_def setAttribute_def t_is_descent
      split: option.splits list.splits if_splits sum.splits)

lemma attr_changed_sets:
  assumes "e2 = changed (has_attribute ''data-i18n-attr'') (attr_binding h s) e1"
    and "well_marked h e1"
    and "getAttribute e1 ''data-i18n-attr'' = Some attrData"
    and "split CHR '':'' attrData = attr # key # rest"
  shows "\<exists>v. t (translations' s) key [] = Inr v \<and> getAttribute e2 attr = Some v"
  using assms
  by (auto simp: changed_def has_attribute_def attr_binding_def well_marked_def setAttribute_def
      t_is_descent getAttribute_def split: option.splits list.splits if_splits)

lemma title_changed_fields:
  assumes "e3 = changed (has_attribute ''data-i18n-title'') (title_binding s) e2"
  shows "tagName e3 = tagName e2" and "own_placeholder e3 = own_placeholder e2"
    and "n \<noteq> ''title'' \<Longrightarrow> attributes e3 n = attributes e2 n"
    and "attributes e2 ''data-i18n-title'' = None \<Longrightarrow> attributes e3 = attributes e2"
  using assms
  by (auto simp: changed_def has_attribute_def title_binding_def set_title_def
      getAttribute_marker t_is_descent split: option.splits)

lemma placeholder_changed_fields:
  assumes "e4 = changed (has_attribute ''data-i18n-placeholder'') (placeholder_binding s) e3"
  shows "tagName e4 = tagName e3"
    and "n \<noteq> ''placeholder'' \<Longrightarrow> attributes e4 n = attributes e3 n"
    and "attributes e3 ''data-i18n-placeholder'' = None \<Longrightarrow> attributes e4 = attributes e3"
    and "\<not> input_like e3 \<Longrightarrow> attributes e4 = attributes e3"
  using assms
  by (auto simp: changed_def has_attribute_def placeholder_binding_def set_placeholder_def
      getAttribute_marker input_like_def t_is_descent split: option.splits if_splits)

lemma attr_target_cong:
  "attributes b ''data-i18n-attr'' = attributes a ''data-i18n-attr'' \<Longrightarrow>
   attr_target b = attr_target a"
  by (simp add: attr_target_def getAttribute_marker)

lemma well_marked_cong:
  "attributes b ''data-i18n-attr'' = attributes a ''data-i18n-attr'' \<Longrightarrow>
   well_marked h b = well_marked h a"
  by (simp add: well_marked_def getAttribute_marker)

lemma pipeline_tagName:
  assumes p1: "e1 = changed (has_attribute ''data-i18n'') (text_binding s) e"
    and p2: "e2 = changed (has_attribute ''data-i18n-attr'') (attr_binding h s) e1"
    and p3: "e3 = changed (has_attribute ''data-i18n-title'') (title_binding s) e2"
    and p4: "e4 = changed (has_attribute ''data-i18n-placeholder'') (placeholder_binding s) e3"
  shows "tagName e4 = tagName e"
  using text_changed_fields(1) [OF p1] attr_changed_fields(1) [OF p2]
    title_changed_fields(1) [OF p3] placeholder_changed_fields(1) [OF p4] by simp

lemma pipeline_placeholder:
  assumes p1: "e1 = changed (has_attribute ''data-i18n'') (text_binding s) e"
    and p2: "e2 = changed (has_attribute ''data-i18n-attr'') (attr_binding h s) e1"
    and p3: "e3 = changed (has_attribute ''data-i18n-title'') (title_binding s) e2"
    and p4: "e4 = changed (has_attribute ''data-i18n-placeholder'') (placeholder_binding s) e3"
    and marker: "getAttribute e ''data-i18n'' = Some key" and tag: "input_like e"
    and free: "getAttribute e ''data-i18n-placeholder'' = None"
      "attr_target e \<noteq> Some ''placeholder''" "attr_target e \<noteq> Some ''data-i18n-placeholder''"
  shows "\<exists>v. t (translations' s) key [] = Inr v \<and> placeholder e4 = Some v"
proof -
  from text_changed_sets [OF p1 marker] tag obtain v where
    tx: "t (translations' s) key [] = Inr v" and a1: "attributes e1 ''placeholder'' = Some v"
    by auto
  have tgt: "attr_target e1 = attr_target e"
    using text_changed_fields(3) [OF p1, of "''data-i18n-attr''"] by (intro attr_target_cong) simp
  have a2: "attributes e2 ''placeholder'' = Some v"
    using attr_changed_fields(3) [OF p2, of "''placeholder''"] tgt free(2) a1 by simp
  have m1: "attributes e1 ''data-i18n-placeholder'' = None"
    using text_changed_fields(3) [OF p1, of "''data-i18n-placeholder''"] free(1)
    by (simp add: getAttribute_marker)
  have m2: "attributes e2 ''data-i18n-placeholder'' = None"
    using attr_changed_fields(3) [OF p2, of "''data-i18n-placeholder''"] tgt free(3) m1 by simp
  have a3: "attributes e3 ''placeholder'' = Some v"
    and m3: "attributes e3 ''data-i18n-placeholder'' = None"
    using title_changed_fields(3) [OF p3] a2 m2 by simp_all
  have a4: "attributes e4 ''placeholder'' = Some v"
    using placeholder_changed_fields(3) [OF p4 m3] a3 by simp
  have "tagName e4 = tagName e"
    by (rule pipeline_tagName [OF p1 p2 p3 p4])
  then have "input_like e4" using tag by (simp add: input_like_def)
  then have "placeholder e4 = Some v" using a4 by (simp add: placeholder_def)
  with tx show ?thesis by blast
qed

lemma pipeline_attr:
  assumes p1: "e1 = changed (has_attribute ''data-i18n'') (text_binding s) e"
    and p2: "e2 = changed (has_attribute ''data-i18n-attr'') (attr_binding h s) e1"
    and p3: "e3 = changed (has_attribute ''data-i18n-title'') (title_binding s) e2"
    and p4: "e4 = changed (has_attribute ''data-i18n-placeholder'') (placeholder_binding s) e3"
    and wm: "well_marked h e"
    and marker: "getAttribute e ''data-i18n-attr'' = Some attrData"
    and parts: "split CHR '':'' attrData = attr # key # rest"
    and no_title: "\<not> (map lower_char attr = ''title'' \<and> getAttribute e ''data-i18n-title'' \<noteq> None)"
    and no_placeholder:
      "\<not> (map lower_char attr = ''placeholder'' \<and> input_like e
          \<and> getAttribute e ''data-i18n-placeholder'' \<noteq> None)"
  shows "\<exists>v. t (translations' s) key [] = Inr v \<and> getAttribute e4 attr = Some v"
proof -
  let ?la = "map lower_char attr"
  have same: "attributes e1 ''data-i18n-attr'' = attributes e ''data-i18n-attr''"
    using text_changed_fields(3) [OF p1, of "''data-i18n-attr''"] by simp
  have m1: "getAttribute e1 ''data-i18n-attr'' = Some attrData"
    using same marker by (simp add: getAttribute_marker)
  have wm1: "well_marked h e1"
    using well_marked_cong [OF same] wm by simp
  have tgt: "attr_target e1 = Some ?la"
    using m1 parts by (simp add: attr_target_def)
  from attr_changed_sets [OF p2 wm1 m1 parts] obtain v where
    tx: "t (translations' s) key [] = Inr v" and a2: "attributes e2 ?la = Some v"
    by (auto simp: getAttribute_def)
  have tag1: "tagName e1 = tagName e" by (rule text_changed_fields(1) [OF p1])
  have tag3: "tagName e3 = tagName e"
    using tag1 attr_changed_fields(1) [OF p2] title_changed_fields(1) [OF p3] by simp
  have a3: "attributes e3 ?la = Some v"
  proof (cases "?la = ''title''")
    case False
    then show ?thesis using title_changed_fields(3) [OF p3] a2 by simp
  next
    case True
    with no_title have "attributes e ''data-i18n-title'' = None"
      by (simp add: getAttribute_marker)
    then have "attributes e1 ''data-i18n-title'' = None"
      using text_changed_fields(3) [OF p1, of "''data-i18n-title''"] by simp
    then have "attributes e2 ''data-i18n-title'' = None"
      using attr_changed_fields(3) [OF p2, of "''data-i18n-title''"] tgt True by simp
    then show ?thesis using title_changed_fields(4) [OF p3] a2 by simp
  qed
  have a4: "attributes e4 ?la = Some v"
  proof (cases "?la = ''placeholder''")
    case False
    then show ?thesis using placeholder_changed_fields(2) [OF p4] a3 by simp
  next
    case True
    show ?thesis
    proof (cases "input_like e")
      case False
      then have "\<not> input_like e3" using tag3 by (simp add: input_like_def)
      then show ?thesis using placeholder_changed_fields(4) [OF p4] a3 by simp
    next
      case input: True
      with no_placeholder True have "attributes e ''data-i18n-placeholder'' = None"
        by (simp add: getAttribute_marker)
      then have "attributes e1 ''data-i18n-placeholder'' = None"
        using text_changed_fields(3) [OF p1, of "''data-i18n-placeholder''"] by simp
      then have "attributes e2 ''data-i18n-placeholder'' = None"
        using attr_changed_fields(3) [OF p2, of "''data-i18n-placeholder''"] tgt True by simp
      then have "attributes e3 ''data-i18n-placeholder'' = None"
        using title_changed_fields(3) [OF p3, of "''data-i18n-placeholder''"] by simp
      then show ?thesis using placeholder_changed_fields(3) [OF p4] a3 by simp
    qed
  qed
  show ?thesis using tx a4 by (auto simp: getAttribute_def)
qed

lemma applied_data_only:
  assumes "\<And>e e' w. f e = Inr (e', w) \<Longrightarrow> w = None"
  shows "applied P f (Element e ch) = Element (changed P f e) (map (applied P f) ch)"
  using assms [of e] by (auto simp: changed_def split: sum.splits prod.splits option.splits)

lemma node_at_applied_data_only:
  assumes "\<And>e e' w. f e = Inr (e', w) \<Longrightarrow> w = None"
    and "node_at n p = Some (Element e ch)"
  shows "node_at (applied P f n) p = Some (Element (changed P f e) (map (applied P f) ch))"
proof -
  have "node_at (applied P f n) p = Some (applied P f (Element e ch))"
    by (rule node_at_applied [where W = "\<lambda>e. False"]) (use assms in auto)
  then show ?thesis using applied_data_only [OF assms(1)] by simp
qed

lemma bound_document_element:
  assumes at: "element_at (document s) p = Some e"
    and kept: "kept replaced_by_text (document s) p"
    and title: "\<And>q. title_element (document s) = Some q \<Longrightarrow> \<not> strict_prefix q p"
  shows "\<exists>ch'. node_at (bound_document h s) p =
      Some (Element
        (changed (has_attribute ''data-i18n-placeholder'') (placeholder_binding s)
          (changed (has_attribute ''data-i18n-title'') (title_binding s)
            (changed (has_attribute ''data-i18n-attr'') (attr_binding h s)
              (changed (has_attribute ''data-i18n'') (text_binding s) e)))) ch')
      \<and> (\<forall>v. replaced_by_text e \<longrightarrow> text_binding s e = Inr (e, Some v) \<longrightarrow> ch' = text_nodes v)"
proof -
  let ?P1 = "has_attribute ''data-i18n''" and ?P2 = "has_attribute ''data-i18n-attr''"
  let ?P3 = "has_attribute ''data-i18n-title''" and ?P4 = "has_attribute ''data-i18n-placeholder''"
  define d1 where "d1 = set_document_title (t_descent (translations' s) ''page.title'' []) (document s)"
  define d2 where "d2 = applied ?P1 (text_binding s) d1"
  define d3 where "d3 = applied ?P2 (attr_binding h s) d2"
  define d4 where "d4 = applied ?P3 (title_binding s) d3"
  define d5 where "d5 = applied ?P4 (placeholder_binding s) d4"
  have bd: "bound_document h s = d5"
    by (simp add: bound_document_def d5_def d4_def d3_def d2_def d1_def)
  have "element_at d1 p = Some e"
    unfolding d1_def by (rule element_at_set_document_title [OF at title])
  then obtain ch1 where n1: "node_at d1 p = Some (Element e ch1)"
    by (auto simp: element_at_node_at)
  have k1: "kept replaced_by_text d1 p"
    unfolding d1_def
    by (rule kept_set_document_title [OF kept])
       (simp add: replaced_by_text_def has_attribute_def getAttribute_def)
  have a2: "node_at d2 p = Some (applied ?P1 (text_binding s) (Element e ch1))"
    unfolding d2_def
    by (rule node_at_applied [where W = replaced_by_text, OF _ k1 n1])
       (use text_binding_replaces [of _ s] in blast)
  define ch2 where
    "ch2 = (if ?P1 e then (case text_binding s e of Inr (e', Some v) \<Rightarrow> text_nodes v
                            | _ \<Rightarrow> map (applied ?P1 (text_binding s)) ch1)
            else map (applied ?P1 (text_binding s)) ch1)"
  have n2: "node_at d2 p = Some (Element (changed ?P1 (text_binding s) e) ch2)"
    using a2 unfolding ch2_def by (simp only: applied_Element)
  have n3: "node_at d3 p = Some (Element (changed ?P2 (attr_binding h s)
        (changed ?P1 (text_binding s) e)) (map (applied ?P2 (attr_binding h s)) ch2))"
    unfolding d3_def by (rule node_at_applied_data_only [OF data_only(1) n2])
  have n4: "node_at d4 p = Some (Element (changed ?P3 (title_binding s)
        (changed ?P2 (attr_binding h s) (changed ?P1 (text_binding s) e)))
        (map (applied ?P3 (title_binding s)) (map (applied ?P2 (attr_binding h s)) ch2)))"
    unfolding d4_def by (rule node_at_applied_data_only [OF data_only(2) n3])
  have n5: "node_at d5 p = Some (Element (changed ?P4 (placeholder_binding s)
        (changed ?P3 (title_binding s)
          (changed ?P2 (attr_binding h s) (changed ?P1 (text_binding s) e))))
        (map (applied ?P4 (placeholder_binding s))
          (map (applied ?P3 (title_binding s)) (map (applied ?P2 (attr_binding h s)) ch2))))"
    unfolding d5_def by (rule node_at_applied_data_only [OF data_only(3) n4])
  have "map (applied ?P4 (placeholder_binding s))
          (map (applied ?P3 (title_binding s)) (map (applied ?P2 (attr_binding h s)) ch2))
        = text_nodes v"
    if "replaced_by_text e" "text_binding s e = Inr (e, Some v)" for v
    using that by (simp add: ch2_def replaced_by_text_def)
  then show ?thesis using n5 bd by simp
qed

lemma title_element_applied:
  assumes W: "\<And>e. W e = (P e \<and> (\<exists>e' v. f e = Inr (e', Some v)))"
    and tag: "\<And>e e' w. f e = Inr (e', w) \<Longrightarrow> tagName e' = tagName e"
    and first: "title_element n = Some q" and kept: "kept W n q"
    and at: "node_at n q = Some (Element eq (text_nodes v0))" and stays: "\<not> W eq"
  shows "title_element (applied P f n) = Some q"
    and "\<exists>eq'. node_at (applied P f n) q = Some (Element eq' (text_nodes v0))"
proof -
  let ?T = "\<lambda>el. tagName el = ''TITLE''"
  have "querySelectorAll ?T (applied P f n) = filter (kept W n) (querySelectorAll ?T n)"
    by (rule querySelectorAll_applied [OF W]) (use tag in simp)
  then show "title_element (applied P f n) = Some q"
    using first kept by (simp add: title_element_def querySelector_def first_of_filter)
  have "node_at (applied P f n) q = Some (applied P f (Element eq (text_nodes v0)))"
    by (rule node_at_applied [where W = W, OF _ kept at]) (use W in blast)
  moreover have "applied P f (Element eq (text_nodes v0)) = Element (changed P f eq) (text_nodes v0)"
    using stays W [of eq] by (auto simp: changed_def split: sum.splits prod.splits option.splits)
  ultimately show "\<exists>eq'. node_at (applied P f n) q = Some (Element eq' (text_nodes v0))"
    by simp
qed

lemma title_element_set_document_title:
  assumes "title_element d = Some q" and "element_at d q = Some eq"
  shows "title_element (set_document_title v d) = Some q"
    and "node_at (set_document_title v d) q = Some (Element eq (text_nodes v))"
proof -
  let ?T = "\<lambda>el. tagName el = ''TITLE''"
  from assms(2) obtain ch where at: "node_at d q = Some (Element eq ch)"
    by (auto simp: element_at_node_at)
  have set: "set_document_title v d = replace_at q (Element eq (text_nodes v)) d"
    using assms(1) at by (simp add: set_document_title_def set_children_def)
  have "querySelectorAll ?T (replace_at q (Element eq (text_nodes v)) d) =
      filter (\<lambda>x. \<not> strict_prefix q x) (querySelectorAll ?T d)"
    by (rule querySelectorAll_replace_at [OF at]) simp_all
  then show "title_element (set_document_title v d) = Some q"
    using assms(1) by (simp add: set title_element_def querySelector_def first_of_filter)
  show "node_at (set_document_title v d) q = Some (Element eq (text_nodes v))"
    using node_at_replace_at [OF at, of "Element eq (text_nodes v)" "[]"] by (simp add: set)
qed

lemma first_of_member: "first_of xs = Some x \<Longrightarrow> x \<in> set xs"
  by (cases xs) (simp_all add: first_of_def)

lemma select_children_empty:
  "select_children T k ns = [] \<longleftrightarrow> (\<forall>c\<in>set ns. querySelectorAll T c = [])"
  by (induction ns arbitrary: k) auto

lemma querySelectorAll_append_child:
  assumes "node_at n hq = Some (Element e ch)" and "querySelectorAll T n = []"
  shows "querySelectorAll T (replace_at hq (Element e (ch @ [m])) n) =
           map ((@) (hq @ [length ch])) (querySelectorAll T m)"
  using assms
proof (induction hq arbitrary: n)
  case Nil
  then show ?case
    by (auto simp: select_children_append split: if_splits)
next
  case (Cons i q)
  show ?case
  proof (cases n)
    case (Text s)
    with Cons.prems show ?thesis by simp
  next
    case (Element e0 ch0)
    with Cons.prems have i: "i < length ch0" and at: "node_at (ch0 ! i) q = Some (Element e ch)"
      and no: "\<not> T e0" and none: "select_children T 0 ch0 = []"
      by (auto split: if_splits)
    from none have all: "\<forall>c\<in>set ch0. querySelectorAll T c = []"
      by (simp add: select_children_empty)
    let ?m = "replace_at q (Element e (ch @ [m])) (ch0 ! i)"
    have sub: "querySelectorAll T ?m = map ((@) (q @ [length ch])) (querySelectorAll T m)"
      using Cons.IH [OF at] all i by simp
    let ?a = "take i ch0" and ?b = "drop (Suc i) ch0"
    have a: "select_children T 0 ?a = []" and b: "select_children T (Suc i) ?b = []"
      using all by (auto simp: select_children_empty dest: in_set_takeD in_set_dropD)
    have "select_children T 0 (ch0[i := ?m]) =
        select_children T 0 ?a @ map ((#) i) (querySelectorAll T ?m)
          @ select_children T (Suc i) ?b"
      using i by (simp add: upd_conv_take_nth_drop select_children_append min_def)
    then have "select_children T 0 (ch0[i := ?m]) =
        map ((@) ((i # q) @ [length ch])) (querySelectorAll T m)"
      using a b sub by simp
    then show ?thesis using Element i no by simp
  qed
qed

lemma title_place_set_document_title:
  assumes "title_place d = Some q"
  shows "title_element (set_document_title v d) = Some q"
    and "\<exists>eq. node_at (set_document_title v d) q = Some (Element eq (text_nodes v)) \<and>
           (element_at d q = Some eq \<or>
            element_at d q = None \<and> \<not> has_attribute ''data-i18n'' eq)"
proof -
  let ?T = "\<lambda>el. tagName el = ''TITLE''"
  show "title_element (set_document_title v d) = Some q"
    and "\<exists>eq. node_at (set_document_title v d) q = Some (Element eq (text_nodes v)) \<and>
           (element_at d q = Some eq \<or>
            element_at d q = None \<and> \<not> has_attribute ''data-i18n'' eq)"
  proof (atomize (full), cases "title_element d")
    case (Some q')
    with assms have q: "title_element d = Some q" by (simp add: title_place_def)
    then have "q \<in> set (querySelectorAll ?T d)"
      by (simp add: title_element_def querySelector_def first_of_member)
    from querySelectorAll_member [OF this] obtain eq where eq: "element_at d q = Some eq"
      by auto
    from title_element_set_document_title [OF q eq, of v] eq
    show "title_element (set_document_title v d) = Some q \<and>
        (\<exists>eq. node_at (set_document_title v d) q = Some (Element eq (text_nodes v)) \<and>
           (element_at d q = Some eq \<or>
            element_at d q = None \<and> \<not> has_attribute ''data-i18n'' eq))"
      by auto
  next
    case None
    with assms obtain hq e ch where hq: "head_element d = Some hq"
      and at: "node_at d hq = Some (Element e ch)" and q: "q = hq @ [length ch]"
      by (auto simp: title_place_def split: option.splits node.splits)
    let ?new = "new_title_element v"
    have set: "set_document_title v d = replace_at hq (Element e (ch @ [?new])) d"
      using None hq at by (simp add: set_document_title_def append_child_def)
    have empty: "querySelectorAll ?T d = []"
      using None by (simp add: title_element_def querySelector_def first_of_def split: list.splits)
    have "querySelectorAll ?T (replace_at hq (Element e (ch @ [?new])) d) =
        map ((@) (hq @ [length ch])) (querySelectorAll ?T ?new)"
      by (rule querySelectorAll_append_child [OF at empty])
    then have t: "title_element (set_document_title v d) = Some q"
      by (simp add: set q title_element_def querySelector_def first_of_def new_title_element_def)
    have "node_at (replace_at hq (Element e (ch @ [?new])) d) (hq @ [length ch]) = Some ?new"
      using node_at_replace_at [OF at, of "Element e (ch @ [?new])" "[length ch]"] by simp
    then have n: "node_at (set_document_title v d) q =
        Some (Element \<lparr>tagName = ''TITLE'', attributes = Map.empty, own_placeholder = None\<rparr>
               (text_nodes v))"
      by (simp add: set q new_title_element_def)
    have gone: "element_at d q = None"
      using element_at_append [OF at, of "[length ch]"] by (simp add: q)
    show "title_element (set_document_title v d) = Some q \<and>
        (\<exists>eq. node_at (set_document_title v d) q = Some (Element eq (text_nodes v)) \<and>
           (element_at d q = Some eq \<or>
            element_at d q = None \<and> \<not> has_attribute ''data-i18n'' eq))"
      using t n gone by (simp add: has_attribute_def getAttribute_def)
  qed
qed

lemma title_place_None:
  assumes "title_place d = None"
  shows "set_document_title v d = d" and "title_element d = None"
  using assms
  by (auto simp: title_place_def set_document_title_def append_child_def
      split: option.splits node.splits)

lemma title_element_None_applied:
  assumes "\<And>e e' w. f e = Inr (e', w) \<Longrightarrow> tagName e' = tagName e"
    and "title_element n = None"
  shows "title_element (applied P f n) = None"
proof -
  let ?T = "\<lambda>el. tagName el = ''TITLE''"
  define W where "W = (\<lambda>e. P e \<and> (\<exists>e' v. f e = Inr (e', Some v)))"
  have "querySelectorAll ?T (applied P f n) = filter (kept W n) (querySelectorAll ?T n)"
    by (rule querySelectorAll_applied) (use assms(1) in \<open>simp_all add: W_def\<close>)
  moreover have "querySelectorAll ?T n = []"
    using assms(2) by (simp add: title_element_def querySelector_def first_of_def split: list.splits)
  ultimately show ?thesis
    by (simp add: title_element_def querySelector_def first_of_def)
qed

lemma bound_document_untitled:
  assumes "title_place (document s) = None"
  shows "document_title (bound_document h s) = []"
proof -
  note d1 = title_place_None [OF assms]
  have "title_element (bound_document h s) = None"
    unfolding bound_document_def d1(1)
    by (intro title_element_None_applied binding_tagName d1(2))
  then show ?thesis by (simp add: document_title_def)
qed

lemma bound_document_title_place:
  assumes place: "title_place (document s) = Some q"
    and kept: "kept replaced_by_text (document s) q"
    and stays: "\<And>eq. element_at (document s) q = Some eq \<Longrightarrow> \<not> replaced_by_text eq"
  shows "document_title (bound_document h s) =
           strip_and_collapse (t_descent (translations' s) ''page.title'' [])"
proof -
  let ?P1 = "has_attribute ''data-i18n''" and ?P2 = "has_attribute ''data-i18n-attr''"
  let ?P3 = "has_attribute ''data-i18n-title''" and ?P4 = "has_attribute ''data-i18n-placeholder''"
  let ?v = "t_descent (translations' s) ''page.title'' []"
  define d1 where "d1 = set_document_title ?v (document s)"
  define d2 where "d2 = applied ?P1 (text_binding s) d1"
  define d3 where "d3 = applied ?P2 (attr_binding h s) d2"
  define d4 where "d4 = applied ?P3 (title_binding s) d3"
  define d5 where "d5 = applied ?P4 (placeholder_binding s) d4"
  have bd: "bound_document h s = d5"
    by (simp add: bound_document_def d5_def d4_def d3_def d2_def d1_def)
  have t1: "title_element d1 = Some q"
    unfolding d1_def by (rule title_place_set_document_title(1) [OF place])
  from title_place_set_document_title(2) [OF place, of ?v] obtain eq where
    n1: "node_at d1 q = Some (Element eq (text_nodes ?v))" and
    eq: "element_at (document s) q = Some eq \<or>
         element_at (document s) q = None \<and> \<not> has_attribute ''data-i18n'' eq"
    unfolding d1_def by blast
  have stays1: "\<not> replaced_by_text eq"
    using eq stays by (auto simp: replaced_by_text_def)
  have k1: "kept replaced_by_text d1 q"
    unfolding d1_def
    by (rule kept_set_document_title [OF kept])
       (simp add: replaced_by_text_def has_attribute_def getAttribute_def)
  have t2: "title_element d2 = Some q"
    unfolding d2_def
    by (rule title_element_applied(1) [where W = replaced_by_text, OF _ _ t1 k1 n1 stays1])
       (rule text_binding_replaces, rule binding_tagName(1))
  have "\<exists>eq'. node_at d2 q = Some (Element eq' (text_nodes ?v))"
    unfolding d2_def
    by (rule title_element_applied(2) [where W = replaced_by_text, OF _ _ t1 k1 n1 stays1])
       (rule text_binding_replaces, rule binding_tagName(1))
  then obtain e2 where n2: "node_at d2 q = Some (Element e2 (text_nodes ?v))" by blast
  have never2: "False = (?P2 e \<and> (\<exists>e' v. attr_binding h s e = Inr (e', Some v)))" for e
    using data_only(1) [of h s e] by auto
  have t3: "title_element d3 = Some q"
    unfolding d3_def
    by (rule title_element_applied(1) [where W = "\<lambda>e. False", OF never2 _ t2 _ n2])
       (rule binding_tagName(2), simp_all)
  have "\<exists>eq'. node_at d3 q = Some (Element eq' (text_nodes ?v))"
    unfolding d3_def
    by (rule title_element_applied(2) [where W = "\<lambda>e. False", OF never2 _ t2 _ n2])
       (rule binding_tagName(2), simp_all)
  then obtain e3 where n3: "node_at d3 q = Some (Element e3 (text_nodes ?v))" by blast
  have never3: "False = (?P3 e \<and> (\<exists>e' v. title_binding s e = Inr (e', Some v)))" for e
    using data_only(2) [of s e] by auto
  have t4: "title_element d4 = Some q"
    unfolding d4_def
    by (rule title_element_applied(1) [where W = "\<lambda>e. False", OF never3 _ t3 _ n3])
       (rule binding_tagName(3), simp_all)
  have "\<exists>eq'. node_at d4 q = Some (Element eq' (text_nodes ?v))"
    unfolding d4_def
    by (rule title_element_applied(2) [where W = "\<lambda>e. False", OF never3 _ t3 _ n3])
       (rule binding_tagName(3), simp_all)
  then obtain e4 where n4: "node_at d4 q = Some (Element e4 (text_nodes ?v))" by blast
  have never4: "False = (?P4 e \<and> (\<exists>e' v. placeholder_binding s e = Inr (e', Some v)))" for e
    using data_only(3) [of s e] by auto
  have t5: "title_element d5 = Some q"
    unfolding d5_def
    by (rule title_element_applied(1) [where W = "\<lambda>e. False", OF never4 _ t4 _ n4])
       (rule binding_tagName(4), simp_all)
  have "\<exists>eq'. node_at d5 q = Some (Element eq' (text_nodes ?v))"
    unfolding d5_def
    by (rule title_element_applied(2) [where W = "\<lambda>e. False", OF never4 _ t4 _ n4])
       (rule binding_tagName(4), simp_all)
  then obtain e5 where n5: "node_at d5 q = Some (Element e5 (text_nodes ?v))" by blast
  show ?thesis
    using t5 n5 by (simp add: bd document_title_def)
qed

lemma applyLanguage_null_table:
  "translations' s = JNull \<Longrightarrow> applyLanguage I18n_js h s = (Thrown TypeError, s)"
  by (simp add: applyLanguage_def log_translations_null)

lemma bound_document_binds:
  assumes wm: "well_marked h e"
    and at: "element_at (document s) p = Some e"
    and kept: "kept replaced_by_text (document s) p"
    and title: "\<forall>q. title_element (document s) = Some q \<longrightarrow> \<not> strict_prefix q p"
  shows "\<exists>e' ch'. node_at (bound_document h s) p = Some (Element e' ch') \<and>
       tagName e' = tagName e \<and>
       (\<forall>key. getAttribute e ''data-i18n'' = Some key \<longrightarrow> \<not> input_like e \<longrightarrow>
          t (translations' s) key [] = Inr (textContent (Element e' ch'))) \<and>
       (\<forall>key. getAttribute e ''data-i18n'' = Some key \<longrightarrow> input_like e \<longrightarrow>
          getAttribute e ''data-i18n-placeholder'' = None \<longrightarrow>
          attr_target e \<noteq> Some ''placeholder'' \<longrightarrow>
          attr_target e \<noteq> Some ''data-i18n-placeholder'' \<longrightarrow>
          (\<exists>v. t (translations' s) key [] = Inr v \<and> placeholder e' = Some v)) \<and>
       (\<forall>attrData attr key rest.
          getAttribute e ''data-i18n-attr'' = Some attrData \<longrightarrow>
          split CHR '':'' attrData = attr # key # rest \<longrightarrow>
          \<not> (map lower_char attr = ''title'' \<and> getAttribute e ''data-i18n-title'' \<noteq> None) \<longrightarrow>
          \<not> (map lower_char attr = ''placeholder'' \<and> input_like e
              \<and> getAttribute e ''data-i18n-placeholder'' \<noteq> None) \<longrightarrow>
          (\<exists>v. t (translations' s) key [] = Inr v \<and> getAttribute e' attr = Some v))"
proof -
  define e1 where "e1 = changed (has_attribute ''data-i18n'') (text_binding s) e"
  define e2 where "e2 = changed (has_attribute ''data-i18n-attr'') (attr_binding h s) e1"
  define e3 where "e3 = changed (has_attribute ''data-i18n-title'') (title_binding s) e2"
  define e4 where "e4 = changed (has_attribute ''data-i18n-placeholder'') (placeholder_binding s) e3"
  from bound_document_element [OF at kept, of h] title obtain ch' where
    node: "node_at (bound_document h s) p = Some (Element e4 ch')" and
    texts: "\<forall>v. replaced_by_text e \<longrightarrow> text_binding s e = Inr (e, Some v) \<longrightarrow> ch' = text_nodes v"
    unfolding e4_def e3_def e2_def e1_def by blast
  have tag: "tagName e4 = tagName e"
    by (rule pipeline_tagName [OF e1_def e2_def e3_def e4_def])
  have c1: "t (translations' s) key [] = Inr (textContent (Element e4 ch'))"
    if m: "getAttribute e ''data-i18n'' = Some key" and n: "\<not> input_like e" for key
  proof -
    from text_changed_sets [OF e1_def m] n obtain v where
      v: "t (translations' s) key [] = Inr v" and b: "text_binding s e = Inr (e, Some v)"
      by auto
    have "replaced_by_text e" using m n by (simp add: replaced_by_text_def has_attribute_def)
    with texts b have "ch' = text_nodes v" by blast
    then show ?thesis using v textContent_text_nodes [of e4 v] by (simp del: textContent.simps)
  qed
  have c2: "\<exists>v. t (translations' s) key [] = Inr v \<and> placeholder e4 = Some v"
    if "getAttribute e ''data-i18n'' = Some key" "input_like e"
      "getAttribute e ''data-i18n-placeholder'' = None"
      "attr_target e \<noteq> Some ''placeholder''" "attr_target e \<noteq> Some ''data-i18n-placeholder''"
    for key
    by (rule pipeline_placeholder [OF e1_def e2_def e3_def e4_def that])
  have c3: "\<exists>v. t (translations' s) key [] = Inr v \<and> getAttribute e4 attr = Some v"
    if "getAttribute e ''data-i18n-attr'' = Some attrData"
      "split CHR '':'' attrData = attr # key # rest"
      "\<not> (map lower_char attr = ''title'' \<and> getAttribute e ''data-i18n-title'' \<noteq> None)"
      "\<not> (map lower_char attr = ''placeholder'' \<and> input_like e
          \<and> getAttribute e ''data-i18n-placeholder'' \<noteq> None)"
    for attrData attr key rest
    by (rule pipeline_attr [OF e1_def e2_def e3_def e4_def wm that])
  show ?thesis
    apply (rule exI [of _ e4], rule exI [of _ ch'])
    apply (intro conjI allI impI)
        apply (rule node)
       apply (rule tag)
      apply (erule (1) c1)
     apply (rule c2; assumption)
    apply (rule c3; assumption)
    done
qed

lemmas tree_defs =
  title_element_def querySelector_def first_of_def getElementById_def querySelector_within_def
  head_element_def document_title_def set_document_title_def set_children_def append_child_def
  new_title_element_def text_nodes_def assigned_def has_attribute_def has_class_def
  strip_and_collapse_def tokens_def ascii_whitespace_def

lemmas apply_defs =
  applyLanguage_def each_element_def update_title_def log_translations_def text_binding_def
  attr_binding_def title_binding_def placeholder_binding_def setAttribute_def set_title_def
  set_placeholder_def input_like_def placeholder_def getAttribute_marker t_is_descent
  t_descent_def

lemmas example_defs =
  state_with_def page_def tag_def heading_def link_def name_field_def en_table_def zh_table_def
  both_host_def zh_only_host_def not_found_host_def null_host_def serving_def ok_response_def
  not_found_def labelled_toggle_def bare_toggle_def marked_toggle_def spaced_table_def
  untitled_page_def

text \<open>
  C2. The claim fails for an input-like element that bears both a plain-text marker and a
  placeholder marker: the first pass sets its placeholder to \<^verbatim>\<open>t(key)\<close> of the plain-text
  marker, and the fourth pass overwrites it. Here an \<^verbatim>\<open>INPUT\<close> with
  \<^verbatim>\<open>data-i18n="form.name"\<close> and \<^verbatim>\<open>data-i18n-placeholder="form.hint"\<close>, the first child of
  the body, ends with the placeholder of \<^verbatim>\<open>form.hint\<close>.
\<close>

theorem applyLanguage_placeholder_counterexample:
  "fst (applyLanguage I18n_js both_host (state_with ''en'' en_table (page [name_field]))) = Returned
   \<and> node_at (document (state_with ''en'' en_table (page [name_field]))) [1, 0] = Some name_field
   \<and> t (translations' (state_with ''en'' en_table (page [name_field]))) ''form.name'' []
       = Inr ''Name''
   \<and> placeholder_at
        (document
           (snd (applyLanguage I18n_js both_host
                   (state_with ''en'' en_table (page [name_field])))))
        [1, 0]
       = Some ''Your full name''"
  by (simp add: apply_defs tree_defs example_defs placeholder_at_def)

text \<open>
  C2, as amended. When the table is not \<^verbatim>\<open>null\<close> (in \<^verbatim>\<open>i18n.js\<close>, whose
  \<^verbatim>\<open>Object.keys(this.translations)\<close> then throws) and every attribute marker of the
  document has the form \<^verbatim>\<open>attr:key\<close> with a name the host accepts, \<^verbatim>\<open>applyLanguage()\<close>
  returns, and afterwards:

  \<^item> when the document has a title element, or else a head element to which one is
    added, and neither that element nor one above it has its content replaced by a text
    in the first pass, \<^verbatim>\<open>document.title\<close> reads \<^verbatim>\<open>t("page.title")\<close> with its whitespace
    stripped and collapsed; without a title element and a head element it reads the
    empty string;

  \<^item> every element that is not below the title element nor below an element whose
    content the first pass replaces is still in its place, and: if it bore a plain-text
    marker and is not input-like, its text is \<^verbatim>\<open>t(key)\<close>; if it bore a plain-text marker
    and is input-like, its placeholder is \<^verbatim>\<open>t(key)\<close>, unless it also bore a placeholder
    marker or an attribute marker that names \<^verbatim>\<open>placeholder\<close> or \<^verbatim>\<open>data-i18n-placeholder\<close>;
    if it bore an attribute marker \<^verbatim>\<open>attr:key\<close>, its attribute \<^verbatim>\<open>attr\<close> is \<^verbatim>\<open>t(key)\<close>, unless
    \<^verbatim>\<open>attr\<close> is \<^verbatim>\<open>title\<close> and the element bore a title marker, or \<^verbatim>\<open>attr\<close> is \<^verbatim>\<open>placeholder\<close>
    and the element is input-like and bore a placeholder marker (the later pass
    overwrites the attribute).

  The markers are those the element had before the call. An element below one whose
  content is replaced is no longer in the document.
\<close>

theorem applyLanguage_binds:
  assumes "c = Part_000 \<or> translations' s \<noteq> JNull"
    and "every_element (well_marked h) (document s)"
  shows "\<exists>s'. applyLanguage c h s = (Returned, s') \<and>
    (\<forall>q. title_place (document s) = Some q \<longrightarrow> kept replaced_by_text (document s) q \<longrightarrow>
       (\<forall>eq. element_at (document s) q = Some eq \<longrightarrow> \<not> replaced_by_text eq) \<longrightarrow>
       (\<exists>v. t (translations' s) ''page.title'' [] = Inr v \<and>
            document_title (document s') = strip_and_collapse v)) \<and>
    (title_place (document s) = None \<longrightarrow> document_title (document s') = []) \<and>
    (\<forall>p e. element_at (document s) p = Some e \<longrightarrow> kept replaced_by_text (document s) p \<longrightarrow>
       (\<forall>q. title_element (document s) = Some q \<longrightarrow> \<not> strict_prefix q p) \<longrightarrow>
       (\<exists>e' ch'. node_at (document s') p = Some (Element e' ch') \<and>
          tagName e' = tagName e \<and>
          (\<forall>key. getAttribute e ''data-i18n'' = Some key \<longrightarrow> \<not> input_like e \<longrightarrow>
             t (translations' s) key [] = Inr (textContent (Element e' ch'))) \<and>
          (\<forall>key. getAttribute e ''data-i18n'' = Some key \<longrightarrow> input_like e \<longrightarrow>
             getAttribute e ''data-i18n-placeholder'' = None \<longrightarrow>
             attr_target e \<noteq> Some ''placeholder'' \<longrightarrow>
             attr_target e \<noteq> Some ''data-i18n-placeholder'' \<longrightarrow>
             (\<exists>v. t (translations' s) key [] = Inr v \<and> placeholder e' = Some v)) \<and>
          (\<forall>attrData attr key rest.
             getAttribute e ''data-i18n-attr'' = Some attrData \<longrightarrow>
             split CHR '':'' attrData = attr # key # rest \<longrightarrow>
             \<not> (map lower_char attr = ''title'' \<and> getAttribute e ''data-i18n-title'' \<noteq> None) \<longrightarrow>
             \<not> (map lower_char attr = ''placeholder'' \<and> input_like e
                 \<and> getAttribute e ''data-i18n-placeholder'' \<noteq> None) \<longrightarrow>
             (\<exists>v. t (translations' s) key [] = Inr v \<and> getAttribute e' attr = Some v))))"
proof -
  define s' where "s' = s\<lparr>document := bound_document h s\<rparr>"
  have run: "applyLanguage c h s = (Returned, s')"
    unfolding s'_def by (rule applyLanguage_run [OF assms])
  have doc: "document s' = bound_document h s" by (simp add: s'_def)
  have ttl: "\<exists>v. t (translations' s) ''page.title'' [] = Inr v \<and>
            document_title (document s') = strip_and_collapse v"
    if "title_place (document s) = Some q" "kept replaced_by_text (document s) q"
      "\<forall>eq. element_at (document s) q = Some eq \<longrightarrow> \<not> replaced_by_text eq" for q
    using bound_document_title_place [OF that(1,2) that(3) [rule_format], of h]
    by (simp add: doc t_is_descent)
  have none: "document_title (document s') = []" if "title_place (document s) = None"
    using bound_document_untitled [OF that, of h] by (simp add: doc)
  show ?thesis
    apply (rule exI [of _ s'])
    apply (intro conjI allI impI)
       apply (rule run)
      apply (rule ttl; assumption)
     apply (erule none)
    apply (unfold doc)
    apply (rule bound_document_binds)
       apply (erule every_element_at [OF assms(2)])
      apply assumption+
    done
qed

theorem applyLanguage_binds_witness:
  "every_element (well_marked both_host)
     (document (state_with ''en'' spaced_table (page [heading, link])))
   \<and> fst (applyLanguage I18n_js both_host (state_with ''en'' spaced_table (page [heading, link])))
       = Returned
   \<and> document_title
        (document (snd (applyLanguage I18n_js both_host
           (state_with ''en'' spaced_table (page [heading, link]))))) = ''Hello, world''
   \<and> text_at
        (document (snd (applyLanguage I18n_js both_host
           (state_with ''en'' spaced_table (page [heading, link])))))
        [1, 0] = Some ''  Hello,   world ''
   \<and> attribute_at
        (document (snd (applyLanguage I18n_js both_host
           (state_with ''en'' spaced_table (page [heading, link])))))
        [1, 1] ''aria-label'' = Some ''  Hello,   world ''"
proof -
  let ?s = "state_with ''en'' spaced_table (page [heading, link])"
  let ?d = "document ?s"
  let ?heading = "\<lparr>tagName = ''H1'', attributes = map_of [(''data-i18n'', ''page.title'')],
                   own_placeholder = None\<rparr>"
  let ?link = "\<lparr>tagName = ''A'',
                 attributes = map_of [(''data-i18n-attr'', ''aria-label:page.title'')],
                 own_placeholder = None\<rparr>"
  have h1: "I18n_js = Part_000 \<or> translations' ?s \<noteq> JNull"
    by (simp add: example_defs)
  have h2: "every_element (well_marked both_host) ?d"
    by (simp add: well_marked_def getAttribute_marker example_defs)
  have tt: "t (translations' ?s) ''page.title'' [] = Inr ''  Hello,   world ''"
    by (simp add: t_is_descent t_descent_def example_defs)
  have q: "title_place ?d = Some [0, 0]" "kept replaced_by_text ?d [0, 0]"
    "\<forall>eq. element_at ?d [0, 0] = Some eq \<longrightarrow> \<not> replaced_by_text eq"
    by (simp_all add: title_place_def tree_defs replaced_by_text_def getAttribute_marker
        example_defs)
  have p0: "element_at ?d [1, 0] = Some ?heading" "kept replaced_by_text ?d [1, 0]"
    "\<forall>q. title_element ?d = Some q \<longrightarrow> \<not> strict_prefix q [1, 0]"
    by (simp_all add: tree_defs replaced_by_text_def getAttribute_marker example_defs)
  have p1: "element_at ?d [1, 1] = Some ?link" "kept replaced_by_text ?d [1, 1]"
    "\<forall>q. title_element ?d = Some q \<longrightarrow> \<not> strict_prefix q [1, 1]"
    by (simp_all add: tree_defs replaced_by_text_def getAttribute_marker example_defs)
  have m0: "getAttribute ?heading ''data-i18n'' = Some ''page.title''" "\<not> input_like ?heading"
    by (simp_all add: getAttribute_marker input_like_def)
  have m1: "getAttribute ?link ''data-i18n-attr'' = Some ''aria-label:page.title''"
    "split CHR '':'' ''aria-label:page.title'' = ''aria-label'' # ''page.title'' # []"
    "\<not> (map lower_char ''aria-label'' = ''title'' \<and> getAttribute ?link ''data-i18n-title'' \<noteq> None)"
    "\<not> (map lower_char ''aria-label'' = ''placeholder'' \<and> input_like ?link
        \<and> getAttribute ?link ''data-i18n-placeholder'' \<noteq> None)"
    by (simp_all add: getAttribute_marker input_like_def lower_char_def)
  show ?thesis
    using applyLanguage_binds [OF h1 h2]
    apply (elim exE conjE)
    subgoal premises p for s'
    proof -
      have s': "snd (applyLanguage I18n_js both_host ?s) = s'"
        and r: "fst (applyLanguage I18n_js both_host ?s) = Returned" using p(1) by simp_all
      from p(2) [rule_format, OF q(1,2) q(3) [rule_format]] tt
      have c1: "document_title (document s') = ''Hello, world''"
        by (simp add: strip_and_collapse_def tokens_def ascii_whitespace_def)
      from p(4) [rule_format, OF p0(1,2) p0(3) [rule_format]] obtain e0 ch0 where
        n0: "node_at (document s') [1, 0] = Some (Element e0 ch0)" and
        b0: "\<forall>key. getAttribute ?heading ''data-i18n'' = Some key \<longrightarrow> \<not> input_like ?heading \<longrightarrow>
              t (translations' ?s) key [] = Inr (textContent (Element e0 ch0))"
        by blast
      from b0 [rule_format, OF m0] tt
      have c2: "textContent (Element e0 ch0) = ''  Hello,   world ''"
        by simp
      from p(4) [rule_format, OF p1(1,2) p1(3) [rule_format]] obtain e1 ch1 where
        n1: "node_at (document s') [1, 1] = Some (Element e1 ch1)" and
        b1: "\<forall>attrData attr key rest.
             getAttribute ?link ''data-i18n-attr'' = Some attrData \<longrightarrow>
             split CHR '':'' attrData = attr # key # rest \<longrightarrow>
             \<not> (map lower_char attr = ''title'' \<and> getAttribute ?link ''data-i18n-title'' \<noteq> None) \<longrightarrow>
             \<not> (map lower_char attr = ''placeholder'' \<and> input_like ?link
                 \<and> getAttribute ?link ''data-i18n-placeholder'' \<noteq> None) \<longrightarrow>
             (\<exists>v. t (translations' ?s) key [] = Inr v \<and> getAttribute e1 attr = Some v)"
        by blast
      from b1 [rule_format, OF m1] tt
      have c3: "getAttribute e1 ''aria-label'' = Some ''  Hello,   world ''"
        by auto
      show ?thesis
        using h2 r c1 c2 c3 n0 n1
        by (simp add: s' element_at_def text_at_def attribute_at_def del: textContent.simps)
    qed
    done
qed

text \<open>
  On a page without a title element the assignment adds one to the head element; on a
  document without a head element it does nothing.
\<close>

lemma title_element_created:
  "title_element (untitled_page [heading]) = None
   \<and> document_title
        (document (snd (applyLanguage I18n_js both_host
           (state_with ''en'' spaced_table (untitled_page [heading]))))) = ''Hello, world''
   \<and> title_element
        (document (snd (applyLanguage I18n_js both_host
           (state_with ''en'' spaced_table (untitled_page [heading]))))) = Some [0, 0]
   \<and> document_title
        (document (snd (applyLanguage I18n_js both_host
           (state_with ''en'' spaced_table (tag ''DIV'' [] [heading]))))) = []"
  by (simp add: apply_defs tree_defs example_defs)

section \<open>Properties of the toggle\<close>

lemma sequence_relates:
  assumes step: "\<And>f s. f \<in> set fs \<Longrightarrow> R s (snd (f s))"
    and refl: "\<And>s. R s s"
    and trans: "\<And>a b c. R a b \<Longrightarrow> R b c \<Longrightarrow> R a c"
  shows "R s (snd (sequence fs s))"
  using step
proof (induction fs arbitrary: s)
  case Nil
  show ?case using refl by simp
next
  case (Cons f fs)
  have first: "R s (snd (f s))" using Cons.prems by simp
  show ?case
  proof (cases "f s")
    case (Pair r s1)
    show ?thesis
    proof (cases r)
      case Returned
      have "R s1 (snd (sequence fs s1))" using Cons.IH Cons.prems by simp
      then show ?thesis using first Pair Returned trans by auto
    next
      case (Thrown e)
      then show ?thesis using first Pair by simp
    qed
  qed
qed

lemma updateLanguageSwitcher_rest:
  "rest_of (snd (updateLanguageSwitcher c s)) = rest_of s"
  by (simp add: updateLanguageSwitcher_def rest_of_def split: option.splits)

lemma switchLanguage_language:
  assumes "lang \<noteq> currentLanguage s"
  shows "currentLanguage (snd (switchLanguage c h lang s)) = lang \<or>
         currentLanguage (snd (switchLanguage c h lang s)) = ''zh''"
proof -
  let ?R = "\<lambda>a b. currentLanguage b = currentLanguage a \<or> currentLanguage b = ''zh''"
  let ?s1 = "snd (select_language lang s)"
  have "?R ?s1 (snd (sequence [loadTranslations c h, applyLanguage c h, updateLanguageSwitcher c] ?s1))"
  proof (rule sequence_relates [where R = ?R])
    fix f s'
    assume "f \<in> set [loadTranslations c h, applyLanguage c h, updateLanguageSwitcher c]"
    then consider "f = loadTranslations c h" | "f = applyLanguage c h"
      | "f = updateLanguageSwitcher c" by auto
    then show "?R s' (snd (f s'))"
    proof cases
      case 1
      then show ?thesis using loadTranslations_language [of c h s'] by simp
    next
      case 2
      then show ?thesis using applyLanguage_rest [of c h s'] by (simp add: rest_of_def)
    next
      case 3
      then show ?thesis using updateLanguageSwitcher_rest [of c s'] by (simp add: rest_of_def)
    qed
  qed auto
  moreover have "currentLanguage ?s1 = lang" by (simp add: select_language_def)
  moreover have "switchLanguage c h lang s =
      sequence [loadTranslations c h, applyLanguage c h, updateLanguageSwitcher c] ?s1"
    using assms by (simp add: switchLanguage_def select_language_def)
  ultimately show ?thesis by simp
qed

lemmas load_defs =
  loadTranslations_def load_attempt_def load_fallback_def retrieve_def fetch_checked_def
  fetch_unchecked_def response_json_def locale_url_def requested_def

lemmas object_defs =
  new_I18n_def init_def switchLanguage_def select_language_def setupLanguageSwitcher_def
  mark_initialized_def set_timer_def timer_fires_def updateLanguageSwitcher_def click_def
  on_click_def seen_def label_text_def Let_def

text \<open>
  C10. Whatever the active language is, supported or not, one click on the toggle (with
  its one listener attached) calls \<^verbatim>\<open>switchLanguage\<close> with \<^verbatim>\<open>en\<close> when the active language
  is exactly \<^verbatim>\<open>zh\<close> and with \<^verbatim>\<open>zh\<close> otherwise; after the click the active language is
  \<^verbatim>\<open>zh\<close> or \<^verbatim>\<open>en\<close>, and an unsupported one has become \<^verbatim>\<open>zh\<close>, however the call ends.
\<close>

theorem click_requests_supported_language:
  assumes "getElementById ''language-switcher'' (document s) = Some switcher"
    and "count_list (listeners s) switcher = 1"
  shows "\<exists>r s'. click c h s = Some (r, s')
    \<and> (r, s') = switchLanguage c h (if currentLanguage s = ''zh'' then ''en'' else ''zh'') s
    \<and> (currentLanguage s' = ''zh'' \<or> currentLanguage s' = ''en'')
    \<and> (currentLanguage s \<noteq> ''zh'' \<and> currentLanguage s \<noteq> ''en'' \<longrightarrow> currentLanguage s' = ''zh'')"
proof -
  let ?new = "if currentLanguage s = ''zh'' then ''en'' else ''zh''"
  have run: "click c h s = Some (switchLanguage c h ?new s)"
    using assms by (auto simp: click_def on_click_def)
  have "?new \<noteq> currentLanguage s" by simp
  from switchLanguage_language [OF this, of c h]
  have "currentLanguage (snd (switchLanguage c h ?new s)) = ?new \<or>
        currentLanguage (snd (switchLanguage c h ?new s)) = ''zh''" .
  then have lang: "(currentLanguage (snd (switchLanguage c h ?new s)) = ''zh'' \<or>
      currentLanguage (snd (switchLanguage c h ?new s)) = ''en'')
    \<and> (currentLanguage s \<noteq> ''zh'' \<and> currentLanguage s \<noteq> ''en'' \<longrightarrow>
        currentLanguage (snd (switchLanguage c h ?new s)) = ''zh'')"
    by (auto split: if_splits)
  show ?thesis
    using run lang by (cases "switchLanguage c h ?new s") auto
qed

text \<open>
  The witness starts from the construction on a page whose storage holds the unsupported
  language \<^verbatim>\<open>fr\<close>: the load of \<^verbatim>\<open>fr.json\<close> fails and is only logged, the active language
  stays \<^verbatim>\<open>fr\<close>, and the click makes it \<^verbatim>\<open>zh\<close>.
\<close>

theorem click_requests_supported_language_witness:
  "currentLanguage
     (snd (new_I18n Part_000 zh_only_host [''language'' \<mapsto> ''fr''] (page [labelled_toggle])))
     = ''fr''
   \<and> getElementById ''language-switcher''
        (document
           (snd (new_I18n Part_000 zh_only_host [''language'' \<mapsto> ''fr'']
                   (page [labelled_toggle])))) = Some [1, 0]
   \<and> count_list
        (listeners
           (snd (new_I18n Part_000 zh_only_host [''language'' \<mapsto> ''fr'']
                   (page [labelled_toggle]))))
        [1, 0] = 1
   \<and> map_option (currentLanguage \<circ> snd)
        (click Part_000 zh_only_host
           (snd (new_I18n Part_000 zh_only_host [''language'' \<mapsto> ''fr'']
                   (page [labelled_toggle]))))
       = Some ''zh''"
proof -
  let ?s = "snd (new_I18n Part_000 zh_only_host [''language'' \<mapsto> ''fr''] (page [labelled_toggle]))"
  have h0: "currentLanguage ?s = ''fr''"
    by (simp add: object_defs load_defs apply_defs tree_defs example_defs)
  have h1: "getElementById ''language-switcher'' (document ?s) = Some [1, 0]"
    by (simp add: object_defs load_defs apply_defs tree_defs example_defs)
  have h2: "count_list (listeners ?s) [1, 0] = 1"
    by (simp add: object_defs load_defs apply_defs tree_defs example_defs)
  have unsupported: "currentLanguage ?s \<noteq> ''zh'' \<and> currentLanguage ?s \<noteq> ''en''"
    using h0 by simp
  from click_requests_supported_language [OF h1 h2, of Part_000 zh_only_host] unsupported
  obtain r s' where "click Part_000 zh_only_host ?s = Some (r, s')"
    and "currentLanguage s' = ''zh''"
    by blast
  then show ?thesis using h0 h1 h2 by simp
qed














text \<open>
  Two more ways in which the click or the refresh miss the label. When the English
  resource is the JSON text \<^verbatim>\<open>null\<close>, \<^verbatim>\<open>applyLanguage\<close> of \<^verbatim>\<open>i18n.js\<close> throws at \<^verbatim>\<open>Object.keys\<close>:
  the active language is \<^verbatim>\<open>en\<close> and the label still reads \<^verbatim>\<open>English\<close>. And when the toggle
  itself bears a plain-text marker, the initialization replaces its content, the label
  included, by the translation.
\<close>

lemma click_null_table:
  "map_option seen
     (click I18n_js null_host
        (snd (timer_fires I18n_js
                (snd (new_I18n I18n_js null_host Map.empty (page [heading, labelled_toggle]))))))
     = Some (Thrown TypeError, ''en'', Some ''English'')"
  by (simp add: object_defs load_defs apply_defs tree_defs example_defs)

lemma marked_toggle_loses_label:
  "label_text (state_with ''zh'' zh_table (page [marked_toggle])) = Some ''...''
   \<and> seen (new_I18n I18n_js both_host Map.empty (page [marked_toggle])) = (Returned, ''zh'', None)
   \<and> text_at (document (snd (new_I18n I18n_js both_host Map.empty (page [marked_toggle])))) [1, 0]
       = Some ''Ni hao''"
  by (simp add: object_defs load_defs apply_defs tree_defs example_defs text_at_def)

section \<open>Where the code falls short of the specification\<close>

text \<open>
  C9. In \<^verbatim>\<open>part_000\<close>, \<^verbatim>\<open>updateLanguageSwitcher\<close> on a document with the toggle but without
  its label throws a TypeError (\<^verbatim>\<open>text\<close> is \<^verbatim>\<open>null\<close>); \<^verbatim>\<open>i18n.js\<close> has the test and does
  nothing there.
\<close>

theorem updateLanguageSwitcher_missing_label:
  "updateLanguageSwitcher Part_000 (state_with ''zh'' zh_table (page [bare_toggle]))
     = (Thrown TypeError, state_with ''zh'' zh_table (page [bare_toggle]))
   \<and> updateLanguageSwitcher I18n_js (state_with ''zh'' zh_table (page [bare_toggle]))
     = (Returned, state_with ''zh'' zh_table (page [bare_toggle]))"
  by (simp add: updateLanguageSwitcher_def state_with_def page_def bare_toggle_def tag_def
      tree_defs getAttribute_marker)

lemma error_status_fails_first_request:
  "fetch h url = Resolved r \<Longrightarrow> \<not> ok r \<Longrightarrow> retrieve I18n_js h url = Inl (HttpError (status r))"
  by (simp add: retrieve_def fetch_checked_def)

text \<open>
  C6. A response with an error status and a JSON body becomes the table: in \<^verbatim>\<open>i18n.js\<close> on
  the fallback request for \<^verbatim>\<open>zh.json\<close>, which has no test of the status (here after the
  English request was refused for its status), and in \<^verbatim>\<open>part_000\<close> on the first request
  already.
\<close>

theorem loadTranslations_accepts_error_status:
  "fetch not_found_host (locale_url ''zh'') = Resolved not_found
   \<and> \<not> ok not_found
   \<and> body not_found = Some (JObj [(''error'', JStr ''Not Found'')])
   \<and> translations'
        (snd (loadTranslations I18n_js not_found_host
               (state_with ''en'' (JObj []) (page []))))
       = JObj [(''error'', JStr ''Not Found'')]
   \<and> translations'
        (snd (loadTranslations Part_000 not_found_host
               (state_with ''zh'' (JObj []) (page []))))
       = JObj [(''error'', JStr ''Not Found'')]"
  by (simp add: load_defs example_defs)


end
